theory Spec2Isabelle
  imports Complex_Main "HOL-Library.Sublist" "HOL-Library.Multiset"
begin

section \<open>Values of the program\<close>

text \<open>
  A JavaScript string is a sequence of UTF-16 code units.  Texts that flow through
  \<^verbatim>\<open>JSON.parse\<close> (provider bodies, the model's text, parsed string values) are lists of
  code units, so that every escape \<^verbatim>\<open>\uXXXX\<close> has a value.  Keys, identifiers and other
  strings the program only compares and concatenates are plain \<^typ>\<open>string\<close>.
\<close>

type_synonym ustring = "nat list"

definition asc :: "string \<Rightarrow> ustring" where
  "asc s = map of_char s"

text \<open>
  JavaScript numbers are modelled as exact reals: the finite numbers, with exact
  arithmetic.  \<^verbatim>\<open>NaN\<close>, the infinities and binary64 rounding are outside the model.
  Where every intermediate result is a binary64 number the two agree; this is so for the
  integer ratings of a ScoreSet (eight ratings have a sum of at most 40, an exact eighth
  and an exact product with 20).  It is not so for fractional ratings: 4.3, 2.2, 3.1,
  4.4, 3.8, 1.4, 3.4, 1.2 have the exact mean 2.975 and the exact total 60, where the
  binary64 sum falls just short and the code's total is 59.  Statements about the
  scorer's total are therefore made for integer ratings only.
\<close>

datatype json =
    JNull
  | JBool bool
  | JNumber real
  | JString ustring
  | JArray "json list"
  | JObject "(ustring \<times> json) list"

text \<open>
  An object is the list of its members in source order; a later member of the same name
  overrides an earlier one, so a property is read from the back.  The order in which a
  JavaScript engine enumerates the keys is not modelled.
\<close>

definition own_prop :: "(ustring \<times> json) list \<Rightarrow> ustring \<Rightarrow> json option" where
  "own_prop kvs k = map_of (rev kvs) k"

text \<open>
  Reading a property by a name that no built-in prototype defines (\<^verbatim>\<open>tier\<close>,
  \<^verbatim>\<open>total_score\<close>, \<^verbatim>\<open>choices\<close>, \<^verbatim>\<open>message\<close>, \<^verbatim>\<open>content\<close>, \<^verbatim>\<open>text\<close>) from a value
  that is neither \<^verbatim>\<open>null\<close> nor \<^verbatim>\<open>undefined\<close>: only an object can have it; \<open>None\<close> is
  \<^verbatim>\<open>undefined\<close>.
\<close>

fun get_named :: "json \<Rightarrow> ustring \<Rightarrow> json option" where
  "get_named (JObject kvs) k = own_prop kvs k"
| "get_named _ k = None"

text \<open>
  The payload built by \<^verbatim>\<open>POST /assess\<close> and handed to \<^verbatim>\<open>llmAssess\<close> and
  \<^verbatim>\<open>heuristicScore\<close>.  \<open>scores\<close> is optional because \<^verbatim>\<open>heuristicScore\<close> reads
  \<^verbatim>\<open>input?.scores || {}\<close>.
\<close>

record payload =
  p_account :: string
  p_title :: string
  p_value :: real
  p_stage :: string
  scores :: "(string \<times> real) list option"
  p_notes :: string

section \<open>The heuristic scorer\<close>

text \<open>\<^verbatim>\<open>Math.round\<close>: the nearest integer, a tie going up.\<close>

definition Math_round :: "real \<Rightarrow> int" where
  "Math_round x = \<lfloor>x + 1 / 2\<rfloor>"

text \<open>The object literal \<^verbatim>\<open>{ tier, go_hold_nogo, total_score, analysis }\<close>.\<close>

definition verdict :: "string \<Rightarrow> string \<Rightarrow> real \<Rightarrow> string \<Rightarrow> json" where
  "verdict tier decision tot analysis =
     JObject [(asc ''tier'', JString (asc tier)),
              (asc ''go_hold_nogo'', JString (asc decision)),
              (asc ''total_score'', JNumber tot),
              (asc ''analysis'', JString (asc analysis))]"

definition score_values :: "payload \<Rightarrow> real list" where
  "score_values input = map snd (case scores input of None \<Rightarrow> [] | Some m \<Rightarrow> m)"

definition heuristicScore :: "payload \<Rightarrow> json" where
  "heuristicScore input =
     (let vals = score_values input;
          avg = (if length vals \<noteq> 0 then foldl (+) 0 vals / real (length vals) else 3);
          tot = max 0 (min 100 (Math_round (avg * 20)));
          tier = (if tot \<ge> 80 then ''Strong'' else if tot \<ge> 60 then ''Workable'' else ''Weak'');
          decision = (if tot \<ge> 80 then ''Go'' else if tot \<ge> 60 then ''Hold'' else ''No-go'')
      in verdict tier decision (real_of_int tot) ''Heuristic fallback scoring.'')"

text \<open>
  The scorer as the specification words it: the mean of the values (3 for the empty
  mapping), times 20, rounded, clamped to 0..100, then the fixed thresholds.
\<close>

definition spec_average :: "real list \<Rightarrow> real" where
  "spec_average vals = (if vals = [] then 3 else sum_list vals / real (length vals))"

definition spec_total :: "real list \<Rightarrow> int" where
  "spec_total vals = max 0 (min 100 (Math_round (spec_average vals * 20)))"

definition spec_tier :: "int \<Rightarrow> string" where
  "spec_tier tot = (if tot \<ge> 80 then ''Strong'' else if tot \<ge> 60 then ''Workable'' else ''Weak'')"

definition spec_decision :: "int \<Rightarrow> string" where
  "spec_decision tot = (if tot \<ge> 80 then ''Go'' else if tot \<ge> 60 then ''Hold'' else ''No-go'')"

text \<open>A payload whose eight ratings all have the value \<open>r\<close>.\<close>

definition uniform_payload :: "real \<Rightarrow> payload" where
  "uniform_payload r =
     \<lparr>p_account = ''Acme'', p_title = ''Renewal'', p_value = 1000, p_stage = ''Discovery'',
      scores = Some [(''metrics'', r), (''economic_buyer'', r), (''decision_criteria'', r),
                     (''decision_process'', r), (''paper_process'', r), (''identified_pain'', r),
                     (''champion'', r), (''competition'', r)],
      p_notes = []\<rparr>"

section \<open>JSON texts\<close>

text \<open>
  \<^verbatim>\<open>JSON.parse\<close> is a built-in of the language; \<^verbatim>\<open>safeJSON\<close> and \<^verbatim>\<open>r.json()\<close> depend on
  which texts it accepts and on what it returns.  It is modelled by a reader for the JSON
  grammar over code units: a lexer for the tokens, then a pushdown automaton for values,
  arrays and objects.  Code units are written as numbers: 34 is the double quote, 92 the
  backslash, 96 the backtick, 123 and 125 the braces, 91 and 93 the brackets, 58 the
  colon, 44 the comma.
\<close>

text \<open>
  White space: the four characters JSON allows between tokens, and the larger set
  \<^verbatim>\<open>String.prototype.trim\<close> removes (WhiteSpace and LineTerminator of the language).
\<close>

definition json_ws :: "nat \<Rightarrow> bool" where
  "json_ws c = (c = 9 \<or> c = 10 \<or> c = 13 \<or> c = 32)"

definition js_ws :: "nat \<Rightarrow> bool" where
  "js_ws c = (c = 9 \<or> c = 10 \<or> c = 11 \<or> c = 12 \<or> c = 13 \<or> c = 32 \<or> c = 160 \<or> c = 5760 \<or>
              (8192 \<le> c \<and> c \<le> 8202) \<or> c = 8232 \<or> c = 8233 \<or> c = 8239 \<or> c = 8287 \<or>
              c = 12288 \<or> c = 65279)"

text \<open>
  Character classes of the lexer: digits, the characters a number can be made of
  (digits, sign, point, exponent mark), and the lower-case letters of \<^verbatim>\<open>true\<close>,
  \<^verbatim>\<open>false\<close> and \<^verbatim>\<open>null\<close>.
\<close>

definition digit :: "nat \<Rightarrow> bool" where
  "digit c = (48 \<le> c \<and> c \<le> 57)"

definition numch :: "nat \<Rightarrow> bool" where
  "numch c = (digit c \<or> c = 43 \<or> c = 45 \<or> c = 46 \<or> c = 69 \<or> c = 101)"

definition letter :: "nat \<Rightarrow> bool" where
  "letter c = (97 \<le> c \<and> c \<le> 122)"

text \<open>
  String literals.  After a backslash comes one of the eight simple escapes or \<^verbatim>\<open>u\<close> and
  four hexadecimal digits; a control character below 32 may not appear unescaped.
  \<open>lex_str\<close> reads up to the closing quote and returns the string and the rest of the
  text.
\<close>

definition hexval :: "nat \<Rightarrow> nat option" where
  "hexval c = (if 48 \<le> c \<and> c \<le> 57 then Some (c - 48)
               else if 65 \<le> c \<and> c \<le> 70 then Some (c - 55)
               else if 97 \<le> c \<and> c \<le> 102 then Some (c - 87)
               else None)"

definition hex4 :: "nat \<Rightarrow> nat \<Rightarrow> nat \<Rightarrow> nat \<Rightarrow> nat option" where
  "hex4 a b c d =
     (case (hexval a, hexval b, hexval c, hexval d) of
        (Some x, Some y, Some z, Some w) \<Rightarrow> Some (((x * 16 + y) * 16 + z) * 16 + w)
      | _ \<Rightarrow> None)"

definition unescape :: "nat \<Rightarrow> nat option" where
  "unescape e = (if e = 34 then Some 34 else if e = 92 then Some 92 else if e = 47 then Some 47
                 else if e = 98 then Some 8 else if e = 102 then Some 12 else if e = 110 then Some 10
                 else if e = 114 then Some 13 else if e = 116 then Some 9 else None)"

definition escape :: "ustring \<Rightarrow> (nat \<times> ustring) option" where
  "escape cs =
     (case cs of
        [] \<Rightarrow> None
      | e # r \<Rightarrow>
          if e = 117 then
            (case r of
               h1 # h2 # h3 # h4 # r' \<Rightarrow> map_option (\<lambda>u. (u, r')) (hex4 h1 h2 h3 h4)
             | _ \<Rightarrow> None)
          else map_option (\<lambda>u. (u, r)) (unescape e))"

lemma escape_length: "escape cs = Some (u, r) \<Longrightarrow> length r < length cs"
  by (auto simp: escape_def split: list.splits if_splits)

function lex_str :: "ustring \<Rightarrow> ustring \<Rightarrow> (ustring \<times> ustring) option" where
  "lex_str acc [] = None"
| "lex_str acc (c # cs) =
     (if c = 34 then Some (rev acc, cs)
      else if c = 92 then
        (case escape cs of None \<Rightarrow> None | Some (u, r) \<Rightarrow> lex_str (u # acc) r)
      else if c < 32 then None
      else lex_str (c # acc) cs)"
  by pat_completeness auto
termination
proof (relation "measure (\<lambda>(acc, cs). length cs)")
  fix acc c cs x2 u r
  assume "escape cs = Some x2" "(u, r) = x2"
  then show "((u # acc, r), acc, c # cs) \<in> measure (\<lambda>(acc, cs). length cs)"
    using escape_length [of cs u r] by auto
qed auto

text \<open>
  Tokens.  A number is the longest run of number characters, which must have the shape
  \<^verbatim>\<open>-? (0 | [1-9][0-9]*) (. [0-9]+)? ([eE] [+-]? [0-9]+)?\<close>; its value is exact.  A
  keyword is the longest run of lower-case letters, which must be one of the three
  literals.
\<close>

datatype token = TLBrace | TRBrace | TLBrack | TRBrack | TColon | TComma
  | TStr ustring | TNum real | TTrue | TFalse | TNull

definition digits_val :: "ustring \<Rightarrow> nat" where
  "digits_val ds = foldl (\<lambda>n d. 10 * n + (d - 48)) 0 ds"

definition num_frac :: "ustring \<Rightarrow> (ustring \<times> ustring) option" where
  "num_frac s =
     (case s of
        [] \<Rightarrow> Some ([], [])
      | c # r \<Rightarrow>
          if c = 46 then
            (if takeWhile digit r = [] then None else Some (takeWhile digit r, dropWhile digit r))
          else Some ([], s))"

definition num_exp :: "ustring \<Rightarrow> int option" where
  "num_exp s =
     (case s of
        [] \<Rightarrow> Some 0
      | c # r \<Rightarrow>
          if c = 101 \<or> c = 69 then
            (let sg = (case r of [] \<Rightarrow> 1 | x # r' \<Rightarrow> if x = 45 then - 1 else (1::int));
                 ds = (case r of [] \<Rightarrow> [] | x # r' \<Rightarrow> if x = 43 \<or> x = 45 then r' else r)
             in if ds \<noteq> [] \<and> list_all digit ds then Some (sg * int (digits_val ds)) else None)
          else None)"

definition number_of :: "ustring \<Rightarrow> real option" where
  "number_of s =
     (let neg = (case s of [] \<Rightarrow> False | c # r \<Rightarrow> c = 45);
          s1 = (if neg then tl s else s);
          ip = takeWhile digit s1
      in if ip = [] \<or> (hd ip = 48 \<and> length ip > 1) then None
         else case num_frac (dropWhile digit s1) of
                None \<Rightarrow> None
              | Some (fp, s3) \<Rightarrow>
                  (case num_exp s3 of
                     None \<Rightarrow> None
                   | Some e \<Rightarrow>
                       Some ((if neg then - 1 else 1)
                             * (real (digits_val ip) + real (digits_val fp) / 10 ^ length fp)
                             * (if e \<ge> 0 then 10 ^ nat e else 1 / 10 ^ nat (- e)))))"

definition keyword :: "ustring \<Rightarrow> token option" where
  "keyword w = (if w = asc ''true'' then Some TTrue else if w = asc ''false'' then Some TFalse
                else if w = asc ''null'' then Some TNull else None)"

lemma lex_str_length: "lex_str acc cs = Some (s, rest) \<Longrightarrow> length rest < length cs"
proof (induction acc cs rule: lex_str.induct)
  case (1 acc)
  then show ?case by simp
next
  case (2 acc c cs)
  show ?case
  proof (cases "c = 34")
    case True
    with "2.prems" show ?thesis by simp
  next
    case c34: False
    show ?thesis
    proof (cases "c = 92")
      case True
      with c34 "2.prems" obtain u r where e: "escape cs = Some (u, r)"
        and l: "lex_str (u # acc) r = Some (s, rest)"
        by (auto split: option.splits)
      from "2.IH"(1) [OF c34 True e refl l] escape_length [OF e] show ?thesis by simp
    next
      case c92: False
      with c34 "2.prems" have c32: "\<not> c < 32" and l: "lex_str (c # acc) cs = Some (s, rest)"
        by (auto split: if_splits)
      from "2.IH"(2) [OF c34 c92 c32 l] show ?thesis by simp
    qed
  qed
qed

function lexer :: "ustring \<Rightarrow> token list option" where
  "lexer [] = Some []"
| "lexer (c # cs) =
     (if json_ws c then lexer cs
      else if c = 123 then map_option (Cons TLBrace) (lexer cs)
      else if c = 125 then map_option (Cons TRBrace) (lexer cs)
      else if c = 91 then map_option (Cons TLBrack) (lexer cs)
      else if c = 93 then map_option (Cons TRBrack) (lexer cs)
      else if c = 58 then map_option (Cons TColon) (lexer cs)
      else if c = 44 then map_option (Cons TComma) (lexer cs)
      else if c = 34 then
        (case lex_str [] cs of
           None \<Rightarrow> None
         | Some (s, rest) \<Rightarrow> map_option (Cons (TStr s)) (lexer rest))
      else if numch c then
        (case number_of (c # takeWhile numch cs) of
           None \<Rightarrow> None
         | Some r \<Rightarrow> map_option (Cons (TNum r)) (lexer (dropWhile numch cs)))
      else if letter c then
        (case keyword (c # takeWhile letter cs) of
           None \<Rightarrow> None
         | Some t \<Rightarrow> map_option (Cons t) (lexer (dropWhile letter cs)))
      else None)"
  by pat_completeness auto
termination
proof (relation "measure length")
  fix c cs x2 s rest
  assume "lex_str [] cs = Some x2" "(s, rest) = x2"
  then show "(rest, c # cs) \<in> measure length"
    using lex_str_length [of "[]" cs s rest] by auto
qed (auto simp: less_Suc_eq_le length_dropWhile_le)


text \<open>
  Values.  The automaton reads the tokens from left to right.  Its stack holds the
  arrays and objects that are open, each with the members read so far, latest first;
  \<open>FMember\<close> is an object whose next key has been read and awaits its value.  The state
  says what may come next.  A text is accepted when its tokens end in \<open>SDone\<close>.
\<close>

datatype frame = FArr "json list" | FObj "(ustring \<times> json) list"
  | FMember "(ustring \<times> json) list" ustring

datatype pstate = SValue | SElemOrEnd | SKeyOrEnd | SKey | SColon ustring | SAfter | SDone json

fun complete :: "json \<Rightarrow> frame list \<Rightarrow> (pstate \<times> frame list) option" where
  "complete v [] = Some (SDone v, [])"
| "complete v (FArr vs # st) = Some (SAfter, FArr (v # vs) # st)"
| "complete v (FMember kvs k # st) = Some (SAfter, FObj ((k, v) # kvs) # st)"
| "complete v (FObj kvs # st) = None"

fun start_value :: "frame list \<Rightarrow> token \<Rightarrow> (pstate \<times> frame list) option" where
  "start_value st TLBrack = Some (SElemOrEnd, FArr [] # st)"
| "start_value st TLBrace = Some (SKeyOrEnd, FObj [] # st)"
| "start_value st (TStr s) = complete (JString s) st"
| "start_value st (TNum r) = complete (JNumber r) st"
| "start_value st TTrue = complete (JBool True) st"
| "start_value st TFalse = complete (JBool False) st"
| "start_value st TNull = complete JNull st"
| "start_value st _ = None"

fun close_array :: "frame list \<Rightarrow> (pstate \<times> frame list) option" where
  "close_array (FArr vs # st) = complete (JArray (rev vs)) st"
| "close_array _ = None"

fun close_object :: "frame list \<Rightarrow> (pstate \<times> frame list) option" where
  "close_object (FObj kvs # st) = complete (JObject (rev kvs)) st"
| "close_object _ = None"

fun step :: "pstate \<Rightarrow> frame list \<Rightarrow> token \<Rightarrow> (pstate \<times> frame list) option" where
  "step SValue st t = start_value st t"
| "step SElemOrEnd st t = (if t = TRBrack then close_array st else start_value st t)"
| "step SKeyOrEnd st t =
     (case t of TRBrace \<Rightarrow> close_object st | TStr k \<Rightarrow> Some (SColon k, st) | _ \<Rightarrow> None)"
| "step SKey st t = (case t of TStr k \<Rightarrow> Some (SColon k, st) | _ \<Rightarrow> None)"
| "step (SColon k) st t =
     (case (t, st) of (TColon, FObj kvs # st') \<Rightarrow> Some (SValue, FMember kvs k # st') | _ \<Rightarrow> None)"
| "step SAfter st t =
     (case st of
        FArr vs # st' \<Rightarrow>
          (case t of TComma \<Rightarrow> Some (SValue, st) | TRBrack \<Rightarrow> close_array st | _ \<Rightarrow> None)
      | FObj kvs # st' \<Rightarrow>
          (case t of TComma \<Rightarrow> Some (SKey, st) | TRBrace \<Rightarrow> close_object st | _ \<Rightarrow> None)
      | _ \<Rightarrow> None)"
| "step (SDone v) st t = None"

fun run :: "pstate \<Rightarrow> frame list \<Rightarrow> token list \<Rightarrow> json option" where
  "run s st [] = (case s of SDone v \<Rightarrow> Some v | _ \<Rightarrow> None)"
| "run s st (t # ts) = (case step s st t of None \<Rightarrow> None | Some (s', st') \<Rightarrow> run s' st' ts)"

definition JSON_parse :: "ustring \<Rightarrow> json option" where
  "JSON_parse s = (case lexer s of None \<Rightarrow> None | Some ts \<Rightarrow> run SValue [] ts)"

section \<open>safeJSON\<close>

text \<open>
  \<^verbatim>\<open>maybe.trim().replace(/^```json/i, "").replace(/^```/, "").replace(/```$/, "")\<close>, then
  \<^verbatim>\<open>JSON.parse\<close>, with the fallback object in the \<^verbatim>\<open>catch\<close>.  None of the patterns has
  the \<^verbatim>\<open>m\<close> flag, so \<^verbatim>\<open>^\<close> is the start and \<^verbatim>\<open>$\<close> the end of the whole text; under the
  \<^verbatim>\<open>i\<close> flag a letter of the pattern matches itself and its upper-case form.
\<close>

definition trim :: "ustring \<Rightarrow> ustring" where
  "trim s = rev (dropWhile js_ws (rev (dropWhile js_ws s)))"

definition ci_eq :: "nat \<Rightarrow> nat \<Rightarrow> bool" where
  "ci_eq p c = (c = p \<or> (97 \<le> p \<and> p \<le> 122 \<and> c + 32 = p))"

definition starts_with_ci :: "ustring \<Rightarrow> ustring \<Rightarrow> bool" where
  "starts_with_ci pat s = (length pat \<le> length s \<and> list_all2 ci_eq pat (take (length pat) s))"

definition fence :: ustring where
  "fence = [96, 96, 96]"

definition strip_json_fence :: "ustring \<Rightarrow> ustring" where
  "strip_json_fence s = (if starts_with_ci (fence @ asc ''json'') s then drop 7 s else s)"

definition strip_open_fence :: "ustring \<Rightarrow> ustring" where
  "strip_open_fence s = (if prefix fence s then drop 3 s else s)"

definition strip_close_fence :: "ustring \<Rightarrow> ustring" where
  "strip_close_fence s = (if suffix fence s then take (length s - 3) s else s)"

definition fallback_result :: json where
  "fallback_result = verdict ''Workable'' ''Hold'' 60 ''Fallback result.''"

definition safeJSON :: "ustring \<Rightarrow> json" where
  "safeJSON maybe =
     (let s = strip_close_fence (strip_open_fence (strip_json_fence (trim maybe)))
      in case JSON_parse s of Some v \<Rightarrow> v | None \<Rightarrow> fallback_result)"

text \<open>
  The three replacements as one function, and the fences the specification speaks of:
  at the start nothing, three backticks, or three backticks and \<^verbatim>\<open>json\<close> in any case; at the
  end nothing or three backticks.
\<close>

definition strip_fences :: "ustring \<Rightarrow> ustring" where
  "strip_fences s = strip_close_fence (strip_open_fence (strip_json_fence s))"

definition fence_opener :: "ustring \<Rightarrow> bool" where
  "fence_opener pre =
     (pre = [] \<or> pre = fence \<or> (length pre = 7 \<and> starts_with_ci (fence @ asc ''json'') pre))"

definition fence_closer :: "ustring \<Rightarrow> bool" where
  "fence_closer post = (post = [] \<or> post = fence)"

section \<open>The LLM client\<close>

text \<open>
  What \<^verbatim>\<open>llmAssess\<close> needs from the platform: the secret store (\<^verbatim>\<open>getSecret\<close> gives the
  secret's text, or \<^verbatim>\<open>null\<close>) and \<^verbatim>\<open>fetch\<close>.  A request is identified by its endpoint, the
  key and model it carries and the payload its prompt is built from; the prompt text is
  a function of the payload, so nothing a claim depends on is lost.  \<^verbatim>\<open>fetch\<close> either
  rejects or resolves to a response with a status and a body; the code never looks at
  the status.
\<close>

record llm_request =
  url :: string
  api_key :: string
  model :: string
  prompt_input :: payload

datatype fetch_result = NetworkError | Response nat ustring

record platform =
  secret :: "string \<Rightarrow> string option"
  fetch :: "llm_request \<Rightarrow> fetch_result"

datatype thrown = MissingKey | FetchRejected | SyntaxError | TypeError

text \<open>\<^verbatim>\<open>v || d\<close> and \<^verbatim>\<open>!v\<close> for a value that is a string or \<^verbatim>\<open>null\<close>.\<close>

definition or_default :: "string option \<Rightarrow> string \<Rightarrow> string" where
  "or_default v d = (case v of None \<Rightarrow> d | Some s \<Rightarrow> if s = [] then d else s)"

definition falsy :: "string option \<Rightarrow> bool" where
  "falsy v = (case v of None \<Rightarrow> True | Some s \<Rightarrow> s = [])"

text \<open>
  The optional chain.  \<^verbatim>\<open>x?.name\<close> and \<^verbatim>\<open>x?.[0]\<close> give \<^verbatim>\<open>undefined\<close> (\<open>None\<close>) when \<open>x\<close> is
  \<^verbatim>\<open>undefined\<close> or \<^verbatim>\<open>null\<close>.  Index 0 of an array is its first element, of a string its
  first code unit as a string, of an object the property named \<^verbatim>\<open>0\<close>.  \<^verbatim>\<open>x?.trim()\<close>
  trims a string, stays \<^verbatim>\<open>undefined\<close> on \<^verbatim>\<open>undefined\<close> and \<^verbatim>\<open>null\<close>, and throws a
  \<^verbatim>\<open>TypeError\<close> on every other value, since no other JSON value has a callable
  \<^verbatim>\<open>trim\<close>.
\<close>

fun opt_named :: "json option \<Rightarrow> ustring \<Rightarrow> json option" where
  "opt_named None k = None"
| "opt_named (Some JNull) k = None"
| "opt_named (Some v) k = get_named v k"

fun opt_first :: "json option \<Rightarrow> json option" where
  "opt_first None = None"
| "opt_first (Some JNull) = None"
| "opt_first (Some (JArray xs)) = (case xs of [] \<Rightarrow> None | x # _ \<Rightarrow> Some x)"
| "opt_first (Some (JString s)) = (case s of [] \<Rightarrow> None | c # _ \<Rightarrow> Some (JString [c]))"
| "opt_first (Some (JObject kvs)) = own_prop kvs (asc ''0'')"
| "opt_first (Some _) = None"

fun opt_trim :: "json option \<Rightarrow> thrown + ustring option" where
  "opt_trim None = Inr None"
| "opt_trim (Some JNull) = Inr None"
| "opt_trim (Some (JString s)) = Inr (Some (trim s))"
| "opt_trim (Some _) = Inl TypeError"

text \<open>\<^verbatim>\<open>t || "{}"\<close>.\<close>

definition text_or_default :: "ustring option \<Rightarrow> ustring" where
  "text_or_default t = (case t of None \<Rightarrow> asc ''{}'' | Some s \<Rightarrow> if s = [] then asc ''{}'' else s)"

text \<open>
  \<^verbatim>\<open>j?.choices?.[0]?.message?.content?.trim()\<close> and \<^verbatim>\<open>j?.content?.[0]?.text?.trim()\<close>.
\<close>

definition openai_text :: "json \<Rightarrow> thrown + ustring option" where
  "openai_text j =
     opt_trim (opt_named (opt_named (opt_first (opt_named (Some j) (asc ''choices'')))
                                    (asc ''message''))
                         (asc ''content''))"

definition anthropic_text :: "json \<Rightarrow> thrown + ustring option" where
  "anthropic_text j =
     opt_trim (opt_named (opt_first (opt_named (Some j) (asc ''content''))) (asc ''text''))"

definition resolved_provider :: "platform \<Rightarrow> string" where
  "resolved_provider env = or_default (secret env ''LLM_PROVIDER'') ''anthropic''"

definition resolved_model :: "platform \<Rightarrow> string" where
  "resolved_model env = or_default (secret env ''LLM_MODEL'') ''claude-3-5-sonnet-20240620''"

definition openai_request :: "platform \<Rightarrow> string \<Rightarrow> payload \<Rightarrow> llm_request" where
  "openai_request env key input =
     \<lparr>url = ''https://api.openai.com/v1/chat/completions'', api_key = key,
      model = resolved_model env, prompt_input = input\<rparr>"

definition anthropic_request :: "platform \<Rightarrow> string \<Rightarrow> payload \<Rightarrow> llm_request" where
  "anthropic_request env key input =
     \<lparr>url = ''https://api.anthropic.com/v1/messages'', api_key = key,
      model = resolved_model env, prompt_input = input\<rparr>"

text \<open>
  \<^verbatim>\<open>await fetch(...)\<close>, \<^verbatim>\<open>await r.json()\<close>, the optional chain and \<^verbatim>\<open>safeJSON\<close>: what both
  branches do once they have a key.  \<open>Inl\<close> is an exception on its way to the
  \<^verbatim>\<open>catch\<close>.
\<close>

definition call_provider ::
  "platform \<Rightarrow> llm_request \<Rightarrow> (json \<Rightarrow> thrown + ustring option) \<Rightarrow> thrown + json" where
  "call_provider env req text_of =
     (case fetch env req of
        NetworkError \<Rightarrow> Inl FetchRejected
      | Response st body \<Rightarrow>
          (case JSON_parse body of
             None \<Rightarrow> Inl SyntaxError
           | Some j \<Rightarrow>
               (case text_of j of
                  Inl e \<Rightarrow> Inl e
                | Inr t \<Rightarrow> Inr (safeJSON (text_or_default t)))))"

text \<open>
  The body of the \<^verbatim>\<open>try\<close>, with the requests it sends.  Any provider other than
  \<^verbatim>\<open>openai\<close> takes the second branch.
\<close>

definition llm_try :: "platform \<Rightarrow> payload \<Rightarrow> (thrown + json) \<times> llm_request list" where
  "llm_try env input =
     (if resolved_provider env = ''openai'' then
        (case secret env ''OPENAI_API_KEY'' of
           None \<Rightarrow> (Inl MissingKey, [])
         | Some key \<Rightarrow>
             if key = [] then (Inl MissingKey, [])
             else (call_provider env (openai_request env key input) openai_text,
                   [openai_request env key input]))
      else
        (case secret env ''ANTHROPIC_API_KEY'' of
           None \<Rightarrow> (Inr (heuristicScore input), [])
         | Some key \<Rightarrow>
             if key = [] then (Inr (heuristicScore input), [])
             else (call_provider env (anthropic_request env key input) anthropic_text,
                   [anthropic_request env key input])))"

text \<open>\<^verbatim>\<open>llmAssess\<close>: the result, and the outbound requests made on the way.\<close>

definition llmAssess :: "platform \<Rightarrow> payload \<Rightarrow> json \<times> llm_request list" where
  "llmAssess env input =
     (case llm_try env input of
        (Inl e, calls) \<Rightarrow> (heuristicScore input, calls)
      | (Inr v, calls) \<Rightarrow> (v, calls))"

text \<open>The shape a validated AssessmentResult would have.\<close>

definition valid_result :: "json \<Rightarrow> bool" where
  "valid_result r =
     ((get_named r (asc ''tier'') = Some (JString (asc ''Strong'')) \<or>
       get_named r (asc ''tier'') = Some (JString (asc ''Workable'')) \<or>
       get_named r (asc ''tier'') = Some (JString (asc ''Weak''))) \<and>
      (get_named r (asc ''go_hold_nogo'') = Some (JString (asc ''Go'')) \<or>
       get_named r (asc ''go_hold_nogo'') = Some (JString (asc ''Hold'')) \<or>
       get_named r (asc ''go_hold_nogo'') = Some (JString (asc ''No-go''))) \<and>
      (case get_named r (asc ''total_score'') of
         Some (JNumber x) \<Rightarrow> x = real_of_int \<lfloor>x\<rfloor> \<and> 0 \<le> x \<and> x \<le> 100
       | _ \<Rightarrow> False))"

text \<open>
  Sample platforms: a key for the default provider and a provider that answers every
  request with the given status and body; and the body of a messages response whose
  text is \<open>txt\<close>.
\<close>

definition canned_platform :: "nat \<Rightarrow> ustring \<Rightarrow> platform" where
  "canned_platform st body =
     \<lparr>secret = (\<lambda>n. if n = ''ANTHROPIC_API_KEY'' then Some ''sk-test'' else None),
      fetch = (\<lambda>req. Response st body)\<rparr>"

definition offline_platform :: platform where
  "offline_platform =
     \<lparr>secret = (\<lambda>n. if n = ''ANTHROPIC_API_KEY'' then Some ''sk-test'' else None),
      fetch = (\<lambda>req. NetworkError)\<rparr>"

definition keyless_platform :: "string option \<Rightarrow> platform" where
  "keyless_platform provider =
     \<lparr>secret = (\<lambda>n. if n = ''LLM_PROVIDER'' then provider else None),
      fetch = (\<lambda>req. Response 200 (asc ''{}''))\<rparr>"

definition json_quote :: "ustring \<Rightarrow> ustring" where
  "json_quote txt = [34] @ concat (map (\<lambda>c. if c = 34 \<or> c = 92 then [92, c] else [c]) txt) @ [34]"

definition messages_body :: "ustring \<Rightarrow> ustring" where
  "messages_body txt =
     asc ''{\"content\":[{\"type\":\"text\",\"text\":'' @ json_quote txt @ asc ''}]}''"

text \<open>
  Vocabulary for statements about either branch: the key the resolved provider needs,
  the request sent with it, and the optional chain applied to the response.
\<close>

definition provider_key :: "platform \<Rightarrow> string option" where
  "provider_key env =
     (if resolved_provider env = ''openai'' then secret env ''OPENAI_API_KEY''
      else secret env ''ANTHROPIC_API_KEY'')"

definition provider_request :: "platform \<Rightarrow> string \<Rightarrow> payload \<Rightarrow> llm_request" where
  "provider_request env key input =
     (if resolved_provider env = ''openai'' then openai_request env key input
      else anthropic_request env key input)"

definition provider_text :: "platform \<Rightarrow> json \<Rightarrow> thrown + ustring option" where
  "provider_text env = (if resolved_provider env = ''openai'' then openai_text else anthropic_text)"

section \<open>Deals and the key-value store\<close>

text \<open>
  A Deal as \<^verbatim>\<open>POST /deal\<close> writes it and \<^verbatim>\<open>POST /assess\<close> updates it.  \<open>lastTier\<close> and
  \<open>lastScore\<close> are whatever the assessment result held under \<^verbatim>\<open>tier\<close> and
  \<^verbatim>\<open>total_score\<close>; an \<^verbatim>\<open>undefined\<close> one is dropped by \<^verbatim>\<open>JSON.stringify\<close>, which is \<open>None\<close>.
  Times are milliseconds since the epoch.
\<close>

record deal =
  userId :: string
  dealId :: string
  d_account :: string
  d_title :: string
  d_value :: real
  d_stage :: string
  lastAssessmentId :: "int option"
  lastTier :: "json option"
  lastScore :: "json option"
  updatedAt :: int

text \<open>
  Modelled from the spec: the key-value store of the platform (\<^verbatim>\<open>fastly:kv-store\<close>), which
  is not part of the repository.  The specification gives its contract as
  \<^verbatim>\<open>get(key) -> value|absent\<close>, \<^verbatim>\<open>put(key, value)\<close> and
  \<^verbatim>\<open>list(prefix, cursor, limit) -> (keys, nextCursor|absent)\<close>.  A store is the list of
  its entries, one per key; a page holds the next \<open>limit\<close> keys with the prefix, and the
  cursor handed back while more keys remain is the last key of the page.  A stored value
  is the object that was written: \<^verbatim>\<open>JSON.stringify\<close> on the way in and \<^verbatim>\<open>json()\<close> on the
  way out are not modelled.
\<close>

type_synonym 'v kv = "(string \<times> 'v) list"

definition kv_get :: "'v kv \<Rightarrow> string \<Rightarrow> 'v option" where
  "kv_get st k = map_of st k"

fun kv_put :: "'v kv \<Rightarrow> string \<Rightarrow> 'v \<Rightarrow> 'v kv" where
  "kv_put [] k v = [(k, v)]"
| "kv_put ((k', v') # st) k v = (if k' = k then (k, v) # st else (k', v') # kv_put st k v)"

definition kv_remaining :: "'v kv \<Rightarrow> string \<Rightarrow> string option \<Rightarrow> string list" where
  "kv_remaining st pfx cursor =
     (case cursor of
        None \<Rightarrow> filter (prefix pfx) (map fst st)
      | Some c \<Rightarrow> drop 1 (dropWhile (\<lambda>k. k \<noteq> c) (filter (prefix pfx) (map fst st))))"

definition kv_list :: "'v kv \<Rightarrow> string \<Rightarrow> string option \<Rightarrow> nat \<Rightarrow> string list \<times> string option" where
  "kv_list st pfx cursor limit =
     (take limit (kv_remaining st pfx cursor),
      if limit < length (kv_remaining st pfx cursor)
      then Some (last (take limit (kv_remaining st pfx cursor))) else None)"

text \<open>
  \<^verbatim>\<open>listDeals\<close>.  The \<^verbatim>\<open>do ... while (cursor)\<close> loop runs as long as the store hands back a
  non-empty cursor, so it is a partial function: \<open>None\<close> is a loop that never ends.
\<close>

partial_function (option) collect_keys ::
  "'v kv \<Rightarrow> string \<Rightarrow> string option \<Rightarrow> string list \<Rightarrow> string list option" where
  "collect_keys st pfx cursor keys =
     (let page = kv_list st pfx cursor 100;
          keys' = keys @ fst page;
          c = snd page
      in if \<not> falsy c then collect_keys st pfx c keys' else Some keys')"

definition deal_prefix :: "string \<Rightarrow> string" where
  "deal_prefix uid = ''deal:'' @ uid @ '':''"

definition listDeals :: "deal kv \<Rightarrow> string \<Rightarrow> deal list option" where
  "listDeals st uid =
     (case collect_keys st (deal_prefix uid) None [] of
        None \<Rightarrow> None
      | Some keys \<Rightarrow> Some (sort_key (\<lambda>d. - updatedAt d) (List.map_filter (kv_get st) keys)))"

text \<open>
  The Deal records of a user are the Deals whose \<open>userId\<close> is the user, wherever they are
  stored.  Every write of the program (\<^verbatim>\<open>POST /deal\<close>, \<^verbatim>\<open>POST /assess\<close>) puts a Deal under
  the key \<^verbatim>\<open>deal:${userId}:${dealId}\<close> made of its own fields, one entry per key.
\<close>

definition owned_deals :: "deal kv \<Rightarrow> string \<Rightarrow> deal list" where
  "owned_deals st uid = filter (\<lambda>d. userId d = uid) (map snd st)"

definition keyed_by_owner :: "deal kv \<Rightarrow> bool" where
  "keyed_by_owner st =
     (distinct (map fst st) \<and>
      list_all (\<lambda>e. fst e = ''deal:'' @ userId (snd e) @ '':'' @ dealId (snd e)) st)"

section \<open>Sessions, requests and responses\<close>

text \<open>
  The four stores.  A session record is the object \<^verbatim>\<open>POST /dev-login\<close> writes; the time
  to live of a session is the platform's business and is not modelled.  An assessment
  record is the object \<^verbatim>\<open>{ ...result, createdAt: ts, payload }\<close>: the properties spread
  from the result (those named \<^verbatim>\<open>createdAt\<close> or \<^verbatim>\<open>payload\<close> are overridden), the time
  and the payload.  The usage store holds the counter as a number.
\<close>

record session_user =
  sub :: string
  email :: string

record assessment =
  a_fields :: "(ustring \<times> json) list"
  createdAt :: int
  a_payload :: payload

record state =
  SESS :: "session_user kv"
  DEALS :: "deal kv"
  ASSESS :: "assessment kv"
  USAGE :: "nat kv"

definition kv_delete :: "'v kv \<Rightarrow> string \<Rightarrow> 'v kv" where
  "kv_delete st k = filter (\<lambda>e. fst e \<noteq> k) st"

text \<open>
  What a request handler reads from the runtime besides secrets and \<^verbatim>\<open>fetch\<close>: the
  clock (\<^verbatim>\<open>Date.now()\<close>, and the text of \<^verbatim>\<open>new Date().toISOString()\<close>), the identifier
  \<^verbatim>\<open>crypto.randomUUID()\<close> returns, and three built-ins taken as they are:
  \<^verbatim>\<open>decodeURIComponent\<close> (\<open>None\<close> is its \<^verbatim>\<open>URIError\<close>), \<^verbatim>\<open>toLowerCase\<close> and \<^verbatim>\<open>Number\<close> on a
  non-empty string.
\<close>

record runtime = platform +
  now :: int
  iso_date :: string
  randomUUID :: string
  decodeURIComponent :: "string \<Rightarrow> string option"
  toLowerCase :: "string \<Rightarrow> string"
  to_number :: "string \<Rightarrow> real"

text \<open>
  A request: method, path of the URL, the \<^verbatim>\<open>cookie\<close> header, and the fields of the form
  data (\<^verbatim>\<open>f.get(name)\<close> is a string or \<^verbatim>\<open>null\<close>).
\<close>

record request =
  req_method :: string
  req_path :: string
  req_cookie :: "string option"
  req_form :: "string \<Rightarrow> string option"

text \<open>
  A response: status, the \<^verbatim>\<open>location\<close> and \<^verbatim>\<open>set-cookie\<close> headers, and what the body
  shows.  The HTML and the cookie's text are renderings of these data and are not
  modelled; a cookie is its name, its value and its life in days.
\<close>

datatype body = NoBody | TextBody string | HomePage | DealsPage "deal list" | DealPage deal
  | AssessmentJson assessment | HealthJson

record response =
  status :: nat
  location :: "string option"
  set_cookie :: "(string \<times> string \<times> int) option"
  content :: body

definition TEXT :: "string \<Rightarrow> nat \<Rightarrow> response" where
  "TEXT s st = \<lparr>status = st, location = None, set_cookie = None, content = TextBody s\<rparr>"

definition HTML :: "body \<Rightarrow> response" where
  "HTML b = \<lparr>status = 200, location = None, set_cookie = None, content = b\<rparr>"

definition redirect :: "string \<Rightarrow> response" where
  "redirect loc = \<lparr>status = 302, location = Some loc, set_cookie = None, content = NoBody\<rparr>"

definition cookieSet :: "string \<Rightarrow> string \<Rightarrow> int \<Rightarrow> string \<times> string \<times> int" where
  "cookieSet name v days = (name, v, days)"

text \<open>
  How a handler ends: it returns a response, or it throws: the promise \<^verbatim>\<open>handle\<close>
  returns is rejected with what was thrown.
\<close>

datatype failure = ThrownResponse response | URIError | ThrownTypeError

datatype outcome = Returned response | Rejected failure

text \<open>
  \<^verbatim>\<open>cookieGet\<close>.  The pattern \<^verbatim>\<open>(?:^|; )name=([^;]+)\<close> is tried at every position from
  the left: at the start of the header, or after \<^verbatim>\<open>"; "\<close>, the name, \<^verbatim>\<open>=\<close>, and the longest
  non-empty run without a semicolon.
\<close>

definition cookie_value_at :: "string \<Rightarrow> string \<Rightarrow> string option" where
  "cookie_value_at name s =
     (if prefix (name @ ''='') s \<and> takeWhile (\<lambda>c. c \<noteq> CHR '';'') (drop (length name + 1) s) \<noteq> []
      then Some (takeWhile (\<lambda>c. c \<noteq> CHR '';'') (drop (length name + 1) s))
      else None)"

definition cookie_match_at :: "string \<Rightarrow> bool \<Rightarrow> string \<Rightarrow> string option" where
  "cookie_match_at name at_start s =
     (case (if at_start then cookie_value_at name s else None) of
        Some v \<Rightarrow> Some v
      | None \<Rightarrow> if prefix ''; '' s then cookie_value_at name (drop 2 s) else None)"

fun cookie_search :: "string \<Rightarrow> bool \<Rightarrow> string \<Rightarrow> string option" where
  "cookie_search name at_start [] = cookie_match_at name at_start []"
| "cookie_search name at_start (c # cs) =
     (case cookie_match_at name at_start (c # cs) of
        Some v \<Rightarrow> Some v
      | None \<Rightarrow> cookie_search name False cs)"

definition cookieGet :: "runtime \<Rightarrow> request \<Rightarrow> string \<Rightarrow> failure + string" where
  "cookieGet rt req name =
     (case cookie_search name True (case req_cookie req of None \<Rightarrow> [] | Some c \<Rightarrow> c) of
        None \<Rightarrow> Inr []
      | Some v \<Rightarrow> (case decodeURIComponent rt v of None \<Rightarrow> Inl URIError | Some d \<Rightarrow> Inr d))"

definition getSession :: "runtime \<Rightarrow> state \<Rightarrow> request \<Rightarrow> failure + string \<times> session_user option" where
  "getSession rt s req =
     (case cookieGet rt req ''apx'' of
        Inl f \<Rightarrow> Inl f
      | Inr sid \<Rightarrow> if sid = [] then Inr ([], None) else Inr (sid, kv_get (SESS s) (''s:'' @ sid)))"

definition requireSession :: "runtime \<Rightarrow> state \<Rightarrow> request \<Rightarrow> failure + string \<times> session_user" where
  "requireSession rt s req =
     (case getSession rt s req of
        Inl f \<Rightarrow> Inl f
      | Inr (sid, user) \<Rightarrow>
          (case user of
             None \<Rightarrow> Inl (ThrownResponse (redirect ''/''))
           | Some u \<Rightarrow> if sid = [] then Inl (ThrownResponse (redirect ''/'')) else Inr (sid, u)))"

section \<open>The request handler\<close>

text \<open>Strings of the handler: \<^verbatim>\<open>trim\<close>, \<^verbatim>\<open>split("/")\<close>, a number in a template, form fields.\<close>

definition str_trim :: "string \<Rightarrow> string" where
  "str_trim s = rev (dropWhile (\<lambda>c. js_ws (of_char c)) (rev (dropWhile (\<lambda>c. js_ws (of_char c)) s)))"

fun split_on :: "char \<Rightarrow> string \<Rightarrow> string list" where
  "split_on c [] = [[]]"
| "split_on c (x # xs) =
     (if x = c then [] # split_on c xs
      else (case split_on c xs of [] \<Rightarrow> [[x]] | w # ws \<Rightarrow> (x # w) # ws))"

definition segment :: "string list \<Rightarrow> nat \<Rightarrow> string" where
  "segment segs n = (if n < length segs then segs ! n else ''undefined'')"

function dec_nat :: "nat \<Rightarrow> string" where
  "dec_nat n = (if n < 10 then [''0123456789'' ! n]
                else dec_nat (n div 10) @ [''0123456789'' ! (n mod 10)])"
  by pat_completeness auto
termination
  by (relation "measure id") auto

declare dec_nat.simps [simp del]

definition dec_int :: "int \<Rightarrow> string" where
  "dec_int i = (if i < 0 then CHR ''-'' # dec_nat (nat (- i)) else dec_nat (nat i))"


definition remove_first :: "char \<Rightarrow> string \<Rightarrow> string" where
  "remove_first c s = takeWhile (\<lambda>x. x \<noteq> c) s @ drop 1 (dropWhile (\<lambda>x. x \<noteq> c) s)"

text \<open>\<^verbatim>\<open>String(f.get(name) || d)\<close> and \<^verbatim>\<open>Number(f.get(name) || 0)\<close>.\<close>

definition form_string :: "request \<Rightarrow> string \<Rightarrow> string \<Rightarrow> string" where
  "form_string req name d = or_default (req_form req name) d"

definition form_number :: "runtime \<Rightarrow> request \<Rightarrow> string \<Rightarrow> real" where
  "form_number rt req name =
     (case req_form req name of None \<Rightarrow> 0 | Some v \<Rightarrow> if v = [] then 0 else to_number rt v)"

definition deal_key :: "string \<Rightarrow> string \<Rightarrow> string" where
  "deal_key uid did = ''deal:'' @ uid @ '':'' @ did"

definition assessment_key :: "string \<Rightarrow> string \<Rightarrow> string \<Rightarrow> string" where
  "assessment_key uid did ts = ''assessment:'' @ uid @ '':'' @ did @ '':'' @ ts"

text \<open>The \<^verbatim>\<open>scores\<close> object and the payload of \<^verbatim>\<open>POST /assess\<close>.\<close>

definition form_scores :: "runtime \<Rightarrow> request \<Rightarrow> (string \<times> real) list" where
  "form_scores rt req =
     [(''metrics'', form_number rt req ''metrics''),
      (''economic_buyer'', form_number rt req ''eb''),
      (''decision_criteria'', form_number rt req ''dc''),
      (''decision_process'', form_number rt req ''dp''),
      (''paper_process'', form_number rt req ''pp''),
      (''identified_pain'', form_number rt req ''ip''),
      (''champion'', form_number rt req ''ch''),
      (''competition'', form_number rt req ''co'')]"

definition assess_payload :: "runtime \<Rightarrow> deal \<Rightarrow> request \<Rightarrow> payload" where
  "assess_payload rt d req =
     \<lparr>p_account = d_account d, p_title = d_title d, p_value = d_value d, p_stage = d_stage d,
      scores = Some (form_scores rt req), p_notes = form_string req ''notes'' []\<rparr>"

text \<open>
  \<^verbatim>\<open>{ ...result }\<close>: the own enumerable properties of the result.  An array and a string
  spread their indices; \<^verbatim>\<open>null\<close>, numbers and booleans spread nothing.
\<close>

fun spread :: "json \<Rightarrow> (ustring \<times> json) list" where
  "spread (JObject kvs) = kvs"
| "spread (JArray xs) = zip (map (\<lambda>i. asc (dec_nat i)) [0..<length xs]) xs"
| "spread (JString s) = zip (map (\<lambda>i. asc (dec_nat i)) [0..<length s]) (map (\<lambda>c. JString [c]) s)"
| "spread _ = []"

definition assessment_record :: "json \<Rightarrow> int \<Rightarrow> payload \<Rightarrow> assessment" where
  "assessment_record result ts p =
     \<lparr>a_fields = filter (\<lambda>e. fst e \<noteq> asc ''createdAt'' \<and> fst e \<noteq> asc ''payload'') (spread result),
      createdAt = ts, a_payload = p\<rparr>"

text \<open>\<^verbatim>\<open>result.tier\<close> and \<^verbatim>\<open>result.total_score\<close>: a \<^verbatim>\<open>TypeError\<close> when the result is \<^verbatim>\<open>null\<close>.\<close>

definition js_member :: "json \<Rightarrow> ustring \<Rightarrow> failure + json option" where
  "js_member v k = (if v = JNull then Inl ThrownTypeError else Inr (get_named v k))"

text \<open>The routes, in the order \<^verbatim>\<open>handle\<close> tests them.\<close>

definition route_home :: "runtime \<Rightarrow> state \<Rightarrow> request \<Rightarrow> outcome \<times> state" where
  "route_home rt s req =
     (case getSession rt s req of
        Inl f \<Rightarrow> (Rejected f, s)
      | Inr (sid, user) \<Rightarrow>
          (case user of
             Some u \<Rightarrow> (Returned (redirect ''/deals''), s)
           | None \<Rightarrow> (Returned (HTML HomePage), s)))"

definition route_dev_login :: "runtime \<Rightarrow> state \<Rightarrow> request \<Rightarrow> outcome \<times> state" where
  "route_dev_login rt s req =
     (let email = str_trim (toLowerCase rt (form_string req ''email'' []))
      in if email = [] then (Returned (TEXT ''Email required'' 400), s)
         else (Returned ((redirect ''/deals'')\<lparr>set_cookie := Some (cookieSet ''apx'' (randomUUID rt) 7)\<rparr>),
               s\<lparr>SESS := kv_put (SESS s) (''s:'' @ randomUUID rt)
                            \<lparr>sub = ''u:'' @ email, email = email\<rparr>\<rparr>))"

definition route_logout :: "runtime \<Rightarrow> state \<Rightarrow> request \<Rightarrow> outcome \<times> state" where
  "route_logout rt s req =
     (case cookieGet rt req ''apx'' of
        Inl f \<Rightarrow> (Rejected f, s)
      | Inr sid \<Rightarrow>
          (Returned ((redirect ''/'')\<lparr>set_cookie := Some (cookieSet ''apx'' [] (- 1))\<rparr>),
           if sid \<noteq> [] then s\<lparr>SESS := kv_delete (SESS s) (''s:'' @ sid)\<rparr> else s))"

definition route_deals :: "runtime \<Rightarrow> state \<Rightarrow> request \<Rightarrow> (outcome \<times> state) option" where
  "route_deals rt s req =
     (case requireSession rt s req of
        Inl f \<Rightarrow> Some (Rejected f, s)
      | Inr (sid, user) \<Rightarrow>
          (case listDeals (DEALS s) (sub user) of
             None \<Rightarrow> None
           | Some deals \<Rightarrow> Some (Returned (HTML (DealsPage deals)), s)))"

definition route_new_deal :: "runtime \<Rightarrow> state \<Rightarrow> request \<Rightarrow> outcome \<times> state" where
  "route_new_deal rt s req =
     (case requireSession rt s req of
        Inl f \<Rightarrow> (Rejected f, s)
      | Inr (sid, user) \<Rightarrow>
          (let did = randomUUID rt;
               doc = \<lparr>userId = sub user, dealId = did,
                      d_account = str_trim (form_string req ''account'' []),
                      d_title = str_trim (form_string req ''title'' []),
                      d_value = form_number rt req ''value'',
                      d_stage = form_string req ''stage'' ''Qualification'',
                      lastAssessmentId = None, lastTier = None, lastScore = None,
                      updatedAt = now rt\<rparr>
           in (Returned (redirect (''/deal/'' @ did)),
               s\<lparr>DEALS := kv_put (DEALS s) (deal_key (sub user) did) doc\<rparr>)))"

definition route_deal :: "runtime \<Rightarrow> state \<Rightarrow> request \<Rightarrow> outcome \<times> state" where
  "route_deal rt s req =
     (case requireSession rt s req of
        Inl f \<Rightarrow> (Rejected f, s)
      | Inr (sid, user) \<Rightarrow>
          (case kv_get (DEALS s) (deal_key (sub user) (last (split_on CHR ''/'' (req_path req)))) of
             None \<Rightarrow> (Returned (TEXT ''Not found'' 404), s)
           | Some d \<Rightarrow> (Returned (HTML (DealPage d)), s)))"

definition bump_usage :: "runtime \<Rightarrow> nat kv \<Rightarrow> nat kv" where
  "bump_usage rt u =
     (let k = ''use:'' @ remove_first CHR ''-'' (take 7 (iso_date rt));
          c = (case kv_get u k of None \<Rightarrow> 0 | Some n \<Rightarrow> n)
      in kv_put u k (c + 1))"

definition route_assess :: "runtime \<Rightarrow> state \<Rightarrow> request \<Rightarrow> outcome \<times> state" where
  "route_assess rt s req =
     (case requireSession rt s req of
        Inl f \<Rightarrow> (Rejected f, s)
      | Inr (sid, user) \<Rightarrow>
          (let did = form_string req ''dealId'' [] in
           case kv_get (DEALS s) (deal_key (sub user) did) of
             None \<Rightarrow> (Returned (TEXT ''Deal missing'' 404), s)
           | Some d \<Rightarrow>
               (let p = assess_payload rt d req;
                    result = fst (llmAssess (platform.truncate rt) p);
                    ts = now rt;
                    s1 = s\<lparr>ASSESS := kv_put (ASSESS s) (assessment_key (sub user) did (dec_int ts))
                                       (assessment_record result ts p)\<rparr>
                in case js_member result (asc ''tier'') of
                     Inl f \<Rightarrow> (Rejected f, s1)
                   | Inr tier \<Rightarrow>
                       (case js_member result (asc ''total_score'') of
                          Inl f \<Rightarrow> (Rejected f, s1)
                        | Inr score \<Rightarrow>
                            (let d' = d\<lparr>lastAssessmentId := Some ts, lastTier := tier,
                                        lastScore := score, updatedAt := ts\<rparr>;
                                 s2 = s1\<lparr>DEALS := kv_put (DEALS s1) (deal_key (sub user) did) d'\<rparr>;
                                 s3 = s2\<lparr>USAGE := bump_usage rt (USAGE s2)\<rparr>
                             in (Returned (redirect (''/assessment/'' @ did @ ''/'' @ dec_int ts)),
                                 s3))))))"

definition route_assessment :: "runtime \<Rightarrow> state \<Rightarrow> request \<Rightarrow> outcome \<times> state" where
  "route_assessment rt s req =
     (case requireSession rt s req of
        Inl f \<Rightarrow> (Rejected f, s)
      | Inr (sid, user) \<Rightarrow>
          (let segs = split_on CHR ''/'' (req_path req) in
           case kv_get (ASSESS s) (assessment_key (sub user) (segment segs 2) (segment segs 3)) of
             None \<Rightarrow> (Returned (TEXT ''Not found'' 404), s)
           | Some a \<Rightarrow> (Returned (HTML (AssessmentJson a)), s)))"

definition handle :: "runtime \<Rightarrow> state \<Rightarrow> request \<Rightarrow> (outcome \<times> state) option" where
  "handle rt s req =
     (let m = req_method req; p = req_path req in
      if m = ''GET'' \<and> p = ''/'' then Some (route_home rt s req)
      else if m = ''POST'' \<and> p = ''/dev-login'' then Some (route_dev_login rt s req)
      else if m = ''POST'' \<and> p = ''/logout'' then Some (route_logout rt s req)
      else if m = ''GET'' \<and> p = ''/deals'' then route_deals rt s req
      else if m = ''POST'' \<and> p = ''/deal'' then Some (route_new_deal rt s req)
      else if m = ''GET'' \<and> prefix ''/deal/'' p then Some (route_deal rt s req)
      else if m = ''POST'' \<and> p = ''/assess'' then Some (route_assess rt s req)
      else if m = ''GET'' \<and> prefix ''/assessment/'' p then Some (route_assessment rt s req)
      else if m = ''GET'' \<and> p = ''/health'' then Some (Returned (HTML HealthJson), s)
      else Some (Returned (TEXT ''Not found'' 404), s))"

text \<open>
  Modelled from the spec: what the platform serves for the promise given to
  \<^verbatim>\<open>event.respondWith\<close>, which is not part of the repository.  A response that was
  returned is served; by the specification's error handling section an uncaught failure
  results in a generic failure response, whatever was thrown.
\<close>

definition generic_failure :: response where
  "generic_failure = \<lparr>status = 500, location = None, set_cookie = None, content = NoBody\<rparr>"

fun respondWith :: "outcome \<Rightarrow> response" where
  "respondWith (Returned r) = r"
| "respondWith (Rejected f) = generic_failure"

text \<open>Sample runtime, states and requests.\<close>

definition sample_runtime :: runtime where
  "sample_runtime =
     \<lparr>secret = (\<lambda>n. None), fetch = (\<lambda>r. NetworkError),
      now = 1700000000000, iso_date = ''2023-11-14T22:13:20.000Z'',
      randomUUID = ''0b9a2c4e-0000-4000-8000-000000000001'',
      decodeURIComponent = Some, toLowerCase = id, to_number = (\<lambda>v. 3)\<rparr>"

definition sample_deal :: "string \<Rightarrow> string \<Rightarrow> int \<Rightarrow> deal" where
  "sample_deal uid did t =
     \<lparr>userId = uid, dealId = did, d_account = ''Acme'', d_title = ''Renewal'', d_value = 1000,
      d_stage = ''Discovery'', lastAssessmentId = None, lastTier = None, lastScore = None,
      updatedAt = t\<rparr>"

definition empty_state :: state where
  "empty_state = \<lparr>SESS = [], DEALS = [], ASSESS = [], USAGE = []\<rparr>"

definition sample_state :: state where
  "sample_state =
     \<lparr>SESS = [(''s:sid-ann'', \<lparr>sub = ''u:ann@x.io'', email = ''ann@x.io''\<rparr>)],
      DEALS = [(deal_key ''u:ann@x.io'' ''d1'', sample_deal ''u:ann@x.io'' ''d1'' 100),
               (deal_key ''u:bob@x.io'' ''d2'', sample_deal ''u:bob@x.io'' ''d2'' 200),
               (deal_key ''u:ann@x.io'' ''d3'', sample_deal ''u:ann@x.io'' ''d3'' 300)],
      ASSESS = [], USAGE = []\<rparr>"

definition anonymous_request :: "string \<Rightarrow> string \<Rightarrow> request" where
  "anonymous_request m p =
     \<lparr>req_method = m, req_path = p, req_cookie = None, req_form = (\<lambda>n. None)\<rparr>"

definition ann_request :: "string \<Rightarrow> string \<Rightarrow> (string \<Rightarrow> string option) \<Rightarrow> request" where
  "ann_request m p f =
     \<lparr>req_method = m, req_path = p, req_cookie = Some ''theme=dark; apx=sid-ann'', req_form = f\<rparr>"

definition many_deals :: "nat \<Rightarrow> deal kv" where
  "many_deals n =
     map (\<lambda>i. (deal_prefix ''u:ann@x.io'' @ replicate (Suc i) CHR ''k'',
               sample_deal ''u:ann@x.io'' (replicate (Suc i) CHR ''k'') (int i)))
         [0..<n]"




text \<open>
  Two users whose identifiers differ by a suffix that starts with a colon, and a third
  one: their sessions, a Deal of the first and of the third, and the Deal the second
  creates.
\<close>

definition session_request :: "string \<Rightarrow> string \<Rightarrow> string \<Rightarrow> (string \<Rightarrow> string option) \<Rightarrow> request" where
  "session_request sid m p f =
     \<lparr>req_method = m, req_path = p, req_cookie = Some (''apx='' @ sid), req_form = f\<rparr>"

definition login_form :: "string \<Rightarrow> string \<Rightarrow> string option" where
  "login_form e n = (if n = ''email'' then Some e else None)"

definition deal_form :: "string \<Rightarrow> string option" where
  "deal_form n = (if n = ''account'' then Some ''Globex'' else if n = ''title'' then Some ''Pilot''
                  else if n = ''value'' then Some ''3'' else None)"

definition two_users_state :: state where
  "two_users_state =
     \<lparr>SESS = [(''s:sid-a'', \<lparr>sub = ''u:a'', email = ''a''\<rparr>),
              (''s:sid-ab'', \<lparr>sub = ''u:a:b'', email = ''a:b''\<rparr>)],
      DEALS = [(''deal:u:a:d1'', sample_deal ''u:a'' ''d1'' 100),
               (''deal:u:zed:d3'', sample_deal ''u:zed'' ''d3'' 300)],
      ASSESS = [], USAGE = []\<rparr>"

definition other_users_deal :: deal where
  "other_users_deal =
     \<lparr>userId = ''u:a:b'', dealId = ''0b9a2c4e-0000-4000-8000-000000000001'',
      d_account = ''Globex'', d_title = ''Pilot'', d_value = 3, d_stage = ''Qualification'',
      lastAssessmentId = None, lastTier = None, lastScore = None, updatedAt = 1700000000000\<rparr>"

section \<open>Properties of the heuristic scorer\<close>

lemma foldl_plus_sum_list: "foldl (+) (a::real) xs = a + sum_list xs"
  by (induction xs arbitrary: a) simp_all

lemma heuristicScore_spec:
  "heuristicScore input =
     verdict (spec_tier (spec_total (score_values input)))
             (spec_decision (spec_total (score_values input)))
             (real_of_int (spec_total (score_values input)))
             ''Heuristic fallback scoring.''"
proof -
  have avg: "(if length (score_values input) \<noteq> 0
              then foldl (+) 0 (score_values input) / real (length (score_values input))
              else 3) = spec_average (score_values input)"
    by (simp add: spec_average_def foldl_plus_sum_list)
  show ?thesis
    unfolding heuristicScore_def Let_def avg spec_tier_def spec_decision_def spec_total_def
    by (rule refl)
qed

lemma spec_total_bounds: "0 \<le> spec_total vals \<and> spec_total vals \<le> 100"
  by (simp add: spec_total_def)

lemma sum_list_bounds:
  fixes vals :: "real list"
  assumes "\<forall>v \<in> set vals. 1 \<le> v \<and> v \<le> 5"
  shows "real (length vals) \<le> sum_list vals \<and> sum_list vals \<le> 5 * real (length vals)"
  using assms by (induction vals) auto

lemma spec_average_bounds:
  assumes "\<forall>v \<in> set vals. 1 \<le> v \<and> v \<le> 5"
  shows "1 \<le> spec_average vals \<and> spec_average vals \<le> 5"
proof (cases "vals = []")
  case True
  then show ?thesis by (simp add: spec_average_def)
next
  case False
  then have pos: "0 < real (length vals)" by simp
  from sum_list_bounds [OF assms] pos show ?thesis
    by (simp add: spec_average_def False pos_le_divide_eq pos_divide_le_eq)
qed

text \<open>
  C2.  For every ScoreSet, a mapping of integer ratings from 1 to 5, of any size, the
  scorer's result is the one the specification describes: total = round (mean * 20)
  clamped to 0..100 (mean 3 for the empty mapping), where the clamp changes nothing; the
  total lies in 0..100, and tier and decision follow the thresholds: at least 80 gives
  Strong / Go, 60 up to 79 gives Workable / Hold, below 60 gives Weak / No-go.
\<close>

theorem heuristicScore_thresholds:
  assumes "\<forall>v \<in> set (score_values input). v \<in> {1, 2, 3, 4, 5}"
  shows "\<exists>tot tier decision.
           heuristicScore input =
             verdict tier decision (real_of_int tot) ''Heuristic fallback scoring.'' \<and>
           tot = spec_total (score_values input) \<and>
           tot = Math_round (spec_average (score_values input) * 20) \<and>
           0 \<le> tot \<and> tot \<le> 100 \<and>
           (80 \<le> tot \<longrightarrow> tier = ''Strong'' \<and> decision = ''Go'') \<and>
           (60 \<le> tot \<and> tot < 80 \<longrightarrow> tier = ''Workable'' \<and> decision = ''Hold'') \<and>
           (tot < 60 \<longrightarrow> tier = ''Weak'' \<and> decision = ''No-go'')"
proof -
  let ?t = "spec_total (score_values input)"
  have "heuristicScore input =
          verdict (spec_tier ?t) (spec_decision ?t) (real_of_int ?t) ''Heuristic fallback scoring.''"
    by (rule heuristicScore_spec)
  moreover have "0 \<le> ?t \<and> ?t \<le> 100"
    by (rule spec_total_bounds)
  moreover have "?t = Math_round (spec_average (score_values input) * 20)"
  proof -
    from assms have "\<forall>v \<in> set (score_values input). 1 \<le> v \<and> v \<le> 5"
      by auto
    from spec_average_bounds [OF this]
    have "20 \<le> spec_average (score_values input) * 20 + 1 / 2"
      and "spec_average (score_values input) * 20 + 1 / 2 < 101"
      by simp_all
    then have "20 \<le> Math_round (spec_average (score_values input) * 20)"
      and "Math_round (spec_average (score_values input) * 20) \<le> 100"
      unfolding Math_round_def by (simp_all add: le_floor_iff floor_less_iff)
    then show ?thesis by (simp add: spec_total_def)
  qed
  moreover have "80 \<le> ?t \<longrightarrow> spec_tier ?t = ''Strong'' \<and> spec_decision ?t = ''Go''"
    by (simp add: spec_tier_def spec_decision_def)
  moreover have "60 \<le> ?t \<and> ?t < 80 \<longrightarrow> spec_tier ?t = ''Workable'' \<and> spec_decision ?t = ''Hold''"
    by (simp add: spec_tier_def spec_decision_def)
  moreover have "?t < 60 \<longrightarrow> spec_tier ?t = ''Weak'' \<and> spec_decision ?t = ''No-go''"
    by (simp add: spec_tier_def spec_decision_def)
  ultimately show ?thesis by blast
qed

theorem heuristicScore_thresholds_witness:
  "heuristicScore (uniform_payload 3) = verdict ''Workable'' ''Hold'' 60 ''Heuristic fallback scoring.'' \<and>
   heuristicScore (uniform_payload 4) = verdict ''Strong'' ''Go'' 80 ''Heuristic fallback scoring.'' \<and>
   heuristicScore (uniform_payload 1) = verdict ''Weak'' ''No-go'' 20 ''Heuristic fallback scoring.''"
proof -
  have h3: "\<forall>v \<in> set (score_values (uniform_payload 3)). v \<in> {1, 2, 3, 4, 5}"
    by (simp add: score_values_def uniform_payload_def)
  have h4: "\<forall>v \<in> set (score_values (uniform_payload 4)). v \<in> {1, 2, 3, 4, 5}"
    by (simp add: score_values_def uniform_payload_def)
  have h1: "\<forall>v \<in> set (score_values (uniform_payload 1)). v \<in> {1, 2, 3, 4, 5}"
    by (simp add: score_values_def uniform_payload_def)
  have t3: "spec_total (score_values (uniform_payload 3)) = 60"
    by (simp add: score_values_def uniform_payload_def spec_total_def spec_average_def Math_round_def)
  have t4: "spec_total (score_values (uniform_payload 4)) = 80"
    by (simp add: score_values_def uniform_payload_def spec_total_def spec_average_def Math_round_def)
  have t1: "spec_total (score_values (uniform_payload 1)) = 20"
    by (simp add: score_values_def uniform_payload_def spec_total_def spec_average_def Math_round_def)
  from heuristicScore_thresholds [OF h3] t3
  have r3: "heuristicScore (uniform_payload 3) =
              verdict ''Workable'' ''Hold'' 60 ''Heuristic fallback scoring.''"
    by auto
  from heuristicScore_thresholds [OF h4] t4
  have r4: "heuristicScore (uniform_payload 4) =
              verdict ''Strong'' ''Go'' 80 ''Heuristic fallback scoring.''"
    by auto
  from heuristicScore_thresholds [OF h1] t1
  have r1: "heuristicScore (uniform_payload 1) =
              verdict ''Weak'' ''No-go'' 20 ''Heuristic fallback scoring.''"
    by auto
  from r3 r4 r1 show ?thesis by blast
qed

lemma get_named_verdict_analysis:
  "get_named (verdict tier decision tot analysis) (asc ''analysis'') = Some (JString (asc analysis))"
  by (simp add: verdict_def own_prop_def asc_def)

text \<open>
  C9.  With no ratings (the empty mapping, or no \<open>scores\<close> at all) the average is 3, the
  total 60, the tier Workable and the decision Hold; and whatever the input, the result's
  \<open>analysis\<close> is the fixed marker of the heuristic path.
\<close>

theorem heuristicScore_empty:
  "spec_average (score_values (input\<lparr>scores := Some []\<rparr>)) = 3 \<and>
   heuristicScore (input\<lparr>scores := Some []\<rparr>) =
     verdict ''Workable'' ''Hold'' 60 ''Heuristic fallback scoring.'' \<and>
   heuristicScore (input\<lparr>scores := None\<rparr>) =
     verdict ''Workable'' ''Hold'' 60 ''Heuristic fallback scoring.'' \<and>
   get_named (heuristicScore other) (asc ''analysis'') =
     Some (JString (asc ''Heuristic fallback scoring.''))"
proof -
  have e1: "score_values (input\<lparr>scores := Some []\<rparr>) = []"
    by (simp add: score_values_def)
  have e2: "score_values (input\<lparr>scores := None\<rparr>) = []"
    by (simp add: score_values_def)
  have t: "spec_total [] = 60"
    by (simp add: spec_total_def spec_average_def Math_round_def)
  have a: "spec_average (score_values (input\<lparr>scores := Some []\<rparr>)) = 3"
    by (simp add: e1 spec_average_def)
  have r1: "heuristicScore (input\<lparr>scores := Some []\<rparr>) =
              verdict ''Workable'' ''Hold'' 60 ''Heuristic fallback scoring.''"
    by (simp add: heuristicScore_spec e1 t spec_tier_def spec_decision_def)
  have r2: "heuristicScore (input\<lparr>scores := None\<rparr>) =
              verdict ''Workable'' ''Hold'' 60 ''Heuristic fallback scoring.''"
    by (simp add: heuristicScore_spec e2 t spec_tier_def spec_decision_def)
  have m: "get_named (heuristicScore other) (asc ''analysis'') =
             Some (JString (asc ''Heuristic fallback scoring.''))"
    unfolding heuristicScore_spec by (rule get_named_verdict_analysis)
  from a r1 r2 m show ?thesis by blast
qed

section \<open>Evaluation on concrete inputs\<close>

text \<open>The defining equations the simplifier needs to run the model on a concrete input.\<close>

lemmas json_eval = JSON_parse_def json_ws_def numch_def digit_def letter_def number_of_def
  num_frac_def num_exp_def digits_val_def keyword_def asc_def escape_def unescape_def hex4_def
  hexval_def

lemmas safeJSON_eval = safeJSON_def trim_def js_ws_def strip_close_fence_def strip_open_fence_def
  strip_json_fence_def starts_with_ci_def fence_def ci_eq_def suffix_to_prefix

lemmas llm_eval = llmAssess_def llm_try_def call_provider_def resolved_provider_def
  resolved_model_def or_default_def anthropic_request_def openai_request_def anthropic_text_def
  openai_text_def text_or_default_def own_prop_def canned_platform_def offline_platform_def
  keyless_platform_def messages_body_def json_quote_def

lemmas platform_eval = provider_key_def provider_request_def provider_text_def resolved_provider_def
  resolved_model_def or_default_def anthropic_request_def openai_request_def anthropic_text_def
  openai_text_def own_prop_def canned_platform_def offline_platform_def keyless_platform_def
  messages_body_def json_quote_def falsy_def

lemma safeJSON_strip: "safeJSON maybe =
   (case JSON_parse (strip_fences (trim maybe)) of Some v \<Rightarrow> v | None \<Rightarrow> fallback_result)"
  by (simp add: safeJSON_def strip_fences_def)

section \<open>Properties of the JSON reader and of safeJSON\<close>

lemma js_ws_not_token:
  assumes "js_ws c"
  shows "c \<noteq> 34" "c \<noteq> 92" "c \<noteq> 96" "c \<noteq> 117" "\<not> numch c" "\<not> letter c"
    "hexval c = None" "unescape c = None"
    "c \<noteq> 123" "c \<noteq> 125" "c \<noteq> 91" "c \<noteq> 93" "c \<noteq> 58" "c \<noteq> 44"
  using assms
  by (auto simp: js_ws_def numch_def digit_def letter_def hexval_def unescape_def)

lemma json_ws_js_ws: "json_ws c \<Longrightarrow> js_ws c"
  by (auto simp: json_ws_def js_ws_def)

lemma lex_js_ws_head:
  assumes "js_ws c" "lexer (c # cs) = Some ts"
  shows "json_ws c \<and> lexer cs = Some ts"
  using assms js_ws_not_token [OF assms(1)]
  by (auto split: if_splits)

lemma lex_ws_only: "\<forall>c \<in> set w. js_ws c \<Longrightarrow> lexer w = Some ts \<Longrightarrow> ts = []"
proof (induction w)
  case Nil
  then show ?case by simp
next
  case (Cons c w)
  from Cons.prems have "js_ws c" by simp
  from lex_js_ws_head [OF this Cons.prems(2)] Cons show ?case by simp
qed

lemma lex_dropWhile_ws: "lexer j = Some ts \<Longrightarrow> lexer (dropWhile js_ws j) = Some ts"
proof (induction j)
  case Nil
  then show ?case by simp
next
  case (Cons c j)
  show ?case
  proof (cases "js_ws c")
    case True
    from lex_js_ws_head [OF True Cons.prems] Cons.IH True show ?thesis by simp
  next
    case False
    with Cons.prems show ?thesis by simp
  qed
qed

lemma lex_ws_prefix: "\<forall>c \<in> set w. json_ws c \<Longrightarrow> lexer (w @ s) = lexer s"
  by (induction w) simp_all

lemma keyword_head: "keyword (c # w) = Some t \<Longrightarrow> c = 116 \<or> c = 102 \<or> c = 110"
  by (auto simp: keyword_def asc_def split: if_splits)

lemma lex_head:
  assumes "lexer (c # cs) = Some ts"
  shows "c \<noteq> 96 \<and> c \<noteq> 106 \<and> c \<noteq> 74"
proof -
  have "c = 96 \<or> c = 74 \<Longrightarrow> lexer (c # cs) = None"
    by (auto simp: json_ws_def numch_def digit_def letter_def)
  moreover have "c = 106 \<Longrightarrow> lexer (c # cs) = None"
  proof -
    assume c: "c = 106"
    have "keyword (c # takeWhile letter cs) = None"
      using keyword_head [of c "takeWhile letter cs"] c by (cases "keyword (c # takeWhile letter cs)") auto
    with c show ?thesis
      by (simp add: json_ws_def numch_def digit_def letter_def)
  qed
  ultimately show ?thesis using assms by auto
qed

lemma hex4_ws: "js_ws a \<or> js_ws b \<or> js_ws c \<or> js_ws d \<Longrightarrow> hex4 a b c d = None"
  by (auto simp: hex4_def js_ws_not_token split: option.splits)

lemma escape_ws: "\<forall>c \<in> set w. js_ws c \<Longrightarrow> escape w = None"
  by (auto simp: escape_def js_ws_not_token hex4_ws split: list.splits)

lemma escape_append:
  assumes "escape (cs @ w) = Some (u, r')" and w: "\<forall>c \<in> set w. js_ws c"
  shows "\<exists>r. r' = r @ w \<and> escape cs = Some (u, r)"
proof (cases cs)
  case Nil
  with assms escape_ws [OF w] show ?thesis by simp
next
  case (Cons e r0)
  show ?thesis
  proof (cases "e = 117")
    case False
    with Cons assms(1) show ?thesis by (auto simp: escape_def)
  next
    case True
    from True Cons assms(1) obtain h1 h2 h3 h4 where
      shape: "r0 @ w = h1 # h2 # h3 # h4 # r'" and hx: "hex4 h1 h2 h3 h4 = Some u"
      by (auto simp: escape_def split: list.splits)
    from hx hex4_ws [of h1 h2 h3 h4] have nws: "\<not> js_ws h1" "\<not> js_ws h2" "\<not> js_ws h3" "\<not> js_ws h4"
      by auto
    from shape nws w obtain r where "r0 = h1 # h2 # h3 # h4 # r" "r' = r @ w"
      by (auto simp: append_eq_Cons_conv)
    with True Cons hx show ?thesis by (simp add: escape_def)
  qed
qed

lemma lex_str_ws: "\<forall>c \<in> set w. js_ws c \<Longrightarrow> lex_str acc w = None"
proof (induction w arbitrary: acc)
  case Nil
  then show ?case by simp
next
  case (Cons c w)
  then have "js_ws c" by simp
  from js_ws_not_token [OF this] Cons show ?case by simp
qed

lemma lex_str_append:
  assumes "lex_str acc (cs @ w) = Some (s, rest')" and w: "\<forall>c \<in> set w. js_ws c"
  shows "\<exists>rest. rest' = rest @ w \<and> lex_str acc cs = Some (s, rest)"
  using assms(1)
proof (induction acc cs rule: lex_str.induct)
  case (1 acc)
  with lex_str_ws [OF w] show ?case by simp
next
  case (2 acc c cs)
  show ?case
  proof (cases "c = 34")
    case True
    with "2.prems" show ?thesis by simp
  next
    case c34: False
    show ?thesis
    proof (cases "c = 92")
      case True
      with c34 "2.prems" obtain u r' where e: "escape (cs @ w) = Some (u, r')"
        and l: "lex_str (u # acc) r' = Some (s, rest')"
        by (auto split: option.splits)
      from escape_append [OF e w] obtain r where r: "r' = r @ w" "escape cs = Some (u, r)"
        by blast
      from "2.IH"(1) [OF c34 True r(2) refl] l r(1)
      obtain rest where "rest' = rest @ w" "lex_str (u # acc) r = Some (s, rest)" by blast
      with c34 True r(2) show ?thesis by simp
    next
      case c92: False
      with c34 "2.prems" have c32: "\<not> c < 32" and l: "lex_str (c # acc) (cs @ w) = Some (s, rest')"
        by (auto split: if_splits)
      from "2.IH"(2) [OF c34 c92 c32 l]
      obtain rest where "rest' = rest @ w" "lex_str (c # acc) cs = Some (s, rest)" by blast
      with c34 c92 c32 show ?thesis by simp
    qed
  qed
qed

lemma takeWhile_append_none: "\<forall>c \<in> set w. \<not> P c \<Longrightarrow> takeWhile P (cs @ w) = takeWhile P cs"
  by (induction cs) (auto simp: takeWhile_eq_Nil_iff)

lemma dropWhile_append_none: "\<forall>c \<in> set w. \<not> P c \<Longrightarrow> dropWhile P (cs @ w) = dropWhile P cs @ w"
  by (induction cs) (auto simp: dropWhile_eq_self_iff)

lemma lex_append_ws:
  assumes w: "\<forall>c \<in> set w. js_ws c"
  shows "lexer (a @ w) = Some ts \<Longrightarrow> lexer a = Some ts"
proof (induction a arbitrary: ts rule: lexer.induct)
  case 1
  with lex_ws_only [OF w] show ?case by simp
next
  case (2 c cs)
  from w have nn: "\<forall>c \<in> set w. \<not> numch c" and nl: "\<forall>c \<in> set w. \<not> letter c"
    using js_ws_not_token by blast+
  have tw: "takeWhile numch (cs @ w) = takeWhile numch cs"
    "dropWhile numch (cs @ w) = dropWhile numch cs @ w"
    "takeWhile letter (cs @ w) = takeWhile letter cs"
    "dropWhile letter (cs @ w) = dropWhile letter cs @ w"
    using takeWhile_append_none [OF nn] dropWhile_append_none [OF nn]
      takeWhile_append_none [OF nl] dropWhile_append_none [OF nl] by simp_all
  show ?case
  proof (cases "json_ws c")
    case True
    with "2.prems" "2.IH"(1) show ?thesis by simp
  next
    case ws: False
    show ?thesis
    proof (cases "c = 123 \<or> c = 125 \<or> c = 91 \<or> c = 93 \<or> c = 58 \<or> c = 44")
      case True
      with ws "2.prems" "2.IH"(2-7) show ?thesis
        by (auto split: if_splits)
    next
      case punct: False
      show ?thesis
      proof (cases "c = 34")
        case True
        with ws punct "2.prems" obtain s rest' ts' where
          l: "lex_str [] (cs @ w) = Some (s, rest')" and r: "lexer rest' = Some ts'"
          and ts: "ts = TStr s # ts'"
          by (auto split: option.splits)
        from lex_str_append [OF l w] obtain rest where
          rest: "rest' = rest @ w" "lex_str [] cs = Some (s, rest)" by blast
        from "2.IH"(8) [OF ws _ _ _ _ _ _ True rest(2) refl] punct r rest(1)
        have "lexer rest = Some ts'" by simp
        with ws punct True rest(2) ts show ?thesis by simp
      next
        case q: False
        show ?thesis
        proof (cases "numch c")
          case True
          with ws punct q "2.prems" tw obtain r ts' where
            n: "number_of (c # takeWhile numch cs) = Some r"
            and l: "lexer (dropWhile numch cs @ w) = Some ts'" and ts: "ts = TNum r # ts'"
            by (auto split: option.splits)
          from "2.IH"(9) [OF ws _ _ _ _ _ _ q True n] punct l
          have "lexer (dropWhile numch cs) = Some ts'" by simp
          with ws punct q True n ts show ?thesis by simp
        next
          case nc: False
          show ?thesis
          proof (cases "letter c")
            case True
            with ws punct q nc "2.prems" tw obtain t ts' where
              k: "keyword (c # takeWhile letter cs) = Some t"
              and l: "lexer (dropWhile letter cs @ w) = Some ts'" and ts: "ts = t # ts'"
              by (auto split: option.splits)
            from "2.IH"(10) [OF ws _ _ _ _ _ _ q nc True k] punct l
            have "lexer (dropWhile letter cs) = Some ts'" by simp
            with ws punct q nc True k ts show ?thesis by simp
          next
            case False
            with ws punct q nc "2.prems" show ?thesis by simp
          qed
        qed
      qed
    qed
  qed
qed

lemma escape_suffix: "escape cs = Some (u, r) \<Longrightarrow> \<exists>p. cs = p @ r"
  by (auto simp: escape_def split: list.splits if_splits)

lemma lex_str_consumed: "lex_str acc cs = Some (s, rest) \<Longrightarrow> \<exists>p. cs = p @ 34 # rest"
proof (induction acc cs rule: lex_str.induct)
  case (1 acc)
  then show ?case by simp
next
  case (2 acc c cs)
  show ?case
  proof (cases "c = 34")
    case True
    with "2.prems" have "c # cs = [] @ 34 # rest" by simp
    then show ?thesis by blast
  next
    case c34: False
    show ?thesis
    proof (cases "c = 92")
      case True
      with c34 "2.prems" obtain u r where e: "escape cs = Some (u, r)"
        and l: "lex_str (u # acc) r = Some (s, rest)"
        by (auto split: option.splits)
      from "2.IH"(1) [OF c34 True e refl l] obtain p where p: "r = p @ 34 # rest" by blast
      from escape_suffix [OF e] obtain p' where "cs = p' @ r" by blast
      with p have "c # cs = (c # p' @ p) @ 34 # rest" by simp
      then show ?thesis by blast
    next
      case c92: False
      with c34 "2.prems" have c32: "\<not> c < 32" and l: "lex_str (c # acc) cs = Some (s, rest)"
        by (auto split: if_splits)
      from "2.IH"(2) [OF c34 c92 c32 l] obtain p where "cs = p @ 34 # rest" by blast
      then have "c # cs = (c # p) @ 34 # rest" by simp
      then show ?thesis by blast
    qed
  qed
qed

lemma last_run:
  assumes "P c" "\<not> P 96" "dropWhile P cs \<noteq> [] \<Longrightarrow> last (dropWhile P cs) \<noteq> 96"
  shows "last (c # cs) \<noteq> (96::nat)"
proof (cases "dropWhile P cs = []")
  case True
  then have "\<forall>x \<in> set (c # cs). P x"
    using assms(1) by (simp add: dropWhile_eq_Nil_conv)
  then have "P (last (c # cs))"
    using last_in_set [of "c # cs"] by blast
  with assms(2) show ?thesis by auto
next
  case False
  have "cs = takeWhile P cs @ dropWhile P cs" by simp
  then have "last (c # cs) = last (dropWhile P cs)"
    using False by (metis last_ConsR last_appendR list.discI append_is_Nil_conv)
  with assms(3) [OF False] show ?thesis by simp
qed

lemma lex_last: "lexer s = Some ts \<Longrightarrow> s \<noteq> [] \<Longrightarrow> last s \<noteq> 96"
proof (induction s arbitrary: ts rule: lexer.induct)
  case 1
  then show ?case by simp
next
  case (2 c cs)
  have tail: "last (c # cs) \<noteq> 96" if "c \<noteq> 96" "cs \<noteq> [] \<Longrightarrow> last cs \<noteq> 96"
    using that by (cases "cs = []") auto
  show ?case
  proof (cases "json_ws c")
    case True
    with "2.prems" "2.IH"(1) [OF True] show ?thesis
      by (intro tail) (auto simp: json_ws_def)
  next
    case ws: False
    show ?thesis
    proof (cases "c = 123 \<or> c = 125 \<or> c = 91 \<or> c = 93 \<or> c = 58 \<or> c = 44")
      case True
      with ws "2.prems" "2.IH"(2-7) show ?thesis
        by (intro tail) (auto split: if_splits)
    next
      case punct: False
      show ?thesis
      proof (cases "c = 34")
        case True
        with ws punct "2.prems" obtain s rest ts' where
          l: "lex_str [] cs = Some (s, rest)" and r: "lexer rest = Some ts'"
          by (auto split: option.splits)
        from lex_str_consumed [OF l] obtain p where p: "cs = p @ 34 # rest" by blast
        have ih: "rest \<noteq> [] \<Longrightarrow> last rest \<noteq> 96"
          using "2.IH"(8) [OF ws _ _ _ _ _ _ True l refl r] punct by simp
        show ?thesis
        proof (cases "rest = []")
          case True
          with p show ?thesis by simp
        next
          case False
          with p ih show ?thesis by simp
        qed
      next
        case q: False
        show ?thesis
        proof (cases "numch c")
          case True
          with ws punct q "2.prems" obtain r ts' where
            n: "number_of (c # takeWhile numch cs) = Some r"
            and l: "lexer (dropWhile numch cs) = Some ts'"
            by (auto split: option.splits)
          have "dropWhile numch cs \<noteq> [] \<Longrightarrow> last (dropWhile numch cs) \<noteq> 96"
            using "2.IH"(9) [OF ws _ _ _ _ _ _ q True n l] punct by simp
          moreover have "\<not> numch 96" by (simp add: numch_def digit_def)
          ultimately show ?thesis using last_run [of numch c cs] True by blast
        next
          case nc: False
          show ?thesis
          proof (cases "letter c")
            case True
            with ws punct q nc "2.prems" obtain t ts' where
              k: "keyword (c # takeWhile letter cs) = Some t"
              and l: "lexer (dropWhile letter cs) = Some ts'"
              by (auto split: option.splits)
            have "dropWhile letter cs \<noteq> [] \<Longrightarrow> last (dropWhile letter cs) \<noteq> 96"
              using "2.IH"(10) [OF ws _ _ _ _ _ _ q nc True k l] punct by simp
            moreover have "\<not> letter 96" by (simp add: letter_def)
            ultimately show ?thesis using last_run [of letter c cs] True by blast
          next
            case False
            with ws punct q nc "2.prems" show ?thesis by simp
          qed
        qed
      qed
    qed
  qed
qed

lemma lex_nonempty: "lexer k = Some ts \<Longrightarrow> ts \<noteq> [] \<Longrightarrow> \<exists>x \<in> set k. \<not> js_ws x"
  using lex_ws_only by blast

lemma opener_head: "fence_opener pre \<Longrightarrow> pre \<noteq> [] \<Longrightarrow> \<exists>p. pre = 96 # p"
  by (cases pre) (auto simp: fence_opener_def fence_def starts_with_ci_def ci_eq_def)

lemma trim_left:
  assumes j: "lexer j = Some ts" "ts \<noteq> []" and pre: "fence_opener pre"
    and w0: "\<forall>c \<in> set w0. js_ws c"
  shows "\<exists>k. dropWhile js_ws (w0 @ pre @ j @ rest) = pre @ k @ rest \<and> lexer k = Some ts"
proof -
  have d: "dropWhile js_ws (w0 @ pre @ j @ rest) = dropWhile js_ws (pre @ j @ rest)"
    using w0 by (intro dropWhile_append2) auto
  show ?thesis
  proof (cases "pre = []")
    case True
    from lex_nonempty [OF j] obtain x where "x \<in> set j" "\<not> js_ws x" by blast
    then have "dropWhile js_ws (j @ rest) = dropWhile js_ws j @ rest"
      by (simp add: dropWhile_append1)
    with d True lex_dropWhile_ws [OF j(1)] show ?thesis by auto
  next
    case False
    from opener_head [OF pre False] obtain p where "pre = 96 # p" by blast
    then have "dropWhile js_ws (pre @ j @ rest) = pre @ j @ rest"
      by (simp add: js_ws_def)
    with d j(1) show ?thesis by auto
  qed
qed

lemma trim_right:
  assumes k: "lexer k1 = Some ts" "ts \<noteq> []" and post: "fence_closer post"
    and w1: "\<forall>c \<in> set w1. js_ws c"
  shows "\<exists>k. rev (dropWhile js_ws (rev (pre @ k1 @ post @ w1))) = pre @ k @ post \<and> lexer k = Some ts"
proof -
  have "dropWhile js_ws (rev w1 @ rev post @ rev k1 @ rev pre) =
          dropWhile js_ws (rev post @ rev k1 @ rev pre)"
    using w1 by (intro dropWhile_append2) auto
  then have d: "dropWhile js_ws (rev (pre @ k1 @ post @ w1)) =
                dropWhile js_ws (rev post @ rev k1 @ rev pre)"
    by simp
  show ?thesis
  proof (cases "post = []")
    case True
    from lex_nonempty [OF k] obtain x where "x \<in> set (rev k1)" "\<not> js_ws x" by auto
    then have e: "dropWhile js_ws (rev k1 @ rev pre) = dropWhile js_ws (rev k1) @ rev pre"
      by (simp add: dropWhile_append1)
    let ?k = "rev (dropWhile js_ws (rev k1))"
    have "rev k1 = takeWhile js_ws (rev k1) @ dropWhile js_ws (rev k1)" by simp
    then have "k1 = ?k @ rev (takeWhile js_ws (rev k1))"
      by (metis rev_append rev_rev_ident)
    moreover have "\<forall>c \<in> set (rev (takeWhile js_ws (rev k1))). js_ws c"
      by (auto dest: set_takeWhileD)
    ultimately have "lexer ?k = Some ts"
      using lex_append_ws [of "rev (takeWhile js_ws (rev k1))" ?k ts] k(1) by simp
    with d e True show ?thesis by auto
  next
    case False
    with post have "post = fence" by (simp add: fence_closer_def)
    then have "dropWhile js_ws (rev post @ rev k1 @ rev pre) = rev post @ rev k1 @ rev pre"
      by (simp add: fence_def js_ws_def)
    with d k(1) show ?thesis by auto
  qed
qed

lemma trim_fenced:
  assumes j: "lexer j = Some ts" "ts \<noteq> []" and pre: "fence_opener pre" and post: "fence_closer post"
    and w0: "\<forall>c \<in> set w0. js_ws c" and w1: "\<forall>c \<in> set w1. js_ws c"
  shows "\<exists>k. trim (w0 @ pre @ j @ post @ w1) = pre @ k @ post \<and> lexer k = Some ts"
proof -
  from trim_left [OF j pre w0, of "post @ w1"] obtain k1 where
    k1: "dropWhile js_ws (w0 @ pre @ j @ post @ w1) = pre @ k1 @ post @ w1" "lexer k1 = Some ts"
    by auto
  from trim_right [OF k1(2) j(2) post w1, of pre] k1(1) show ?thesis
    by (simp add: trim_def)
qed

lemma strip_fences_fenced:
  assumes k: "lexer k = Some ts" "ts \<noteq> []" and pre: "fence_opener pre" and post: "fence_closer post"
  shows "strip_fences (pre @ k @ post) = k"
proof -
  from k obtain c k' where ck: "k = c # k'" by (cases k) auto
  from lex_head [of c k' ts] k(1) ck have c: "c \<noteq> 96" "c \<noteq> 106" "c \<noteq> 74" by auto
  from lex_last [OF k(1)] ck have l: "last k \<noteq> 96" by auto
  have s12: "strip_open_fence (strip_json_fence (pre @ k @ post)) = k @ post"
  proof -
    consider "pre = []" | "pre = fence" | "length pre = 7" "starts_with_ci (fence @ asc ''json'') pre"
      using pre by (auto simp: fence_opener_def)
    then show ?thesis
    proof cases
      case 1
      with ck c show ?thesis
        by (simp add: strip_json_fence_def strip_open_fence_def starts_with_ci_def fence_def
            asc_def ci_eq_def)
    next
      case 2
      with ck c show ?thesis
        by (simp add: strip_json_fence_def strip_open_fence_def starts_with_ci_def fence_def
            asc_def ci_eq_def)
    next
      case 3
      then have "starts_with_ci (fence @ asc ''json'') (pre @ k @ post)"
        by (simp add: starts_with_ci_def fence_def asc_def)
      with 3 ck c show ?thesis
        by (simp add: strip_json_fence_def strip_open_fence_def fence_def)
    qed
  qed
  have "strip_close_fence (k @ post) = k"
  proof (cases "post = []")
    case True
    have "\<not> suffix fence k"
    proof
      assume "suffix fence k"
      then obtain p where "k = p @ fence" by (auto simp: suffix_def)
      with l show False by (simp add: fence_def)
    qed
    with True show ?thesis by (simp add: strip_close_fence_def)
  next
    case False
    with post have "post = fence" by (simp add: fence_closer_def)
    then show ?thesis by (simp add: strip_close_fence_def fence_def suffix_def)
  qed
  with s12 show ?thesis by (simp add: strip_fences_def)
qed

lemma run_nonempty: "run SValue [] ts = Some v \<Longrightarrow> ts \<noteq> []"
  by auto

text \<open>
  C4.  A text that is valid JSON, bare or wrapped in a Markdown fence (three backticks,
  or three backticks and \<^verbatim>\<open>json\<close> in any case, at the start; three backticks at the end),
  with any white space around it, is unwrapped and parsed: \<^verbatim>\<open>safeJSON\<close> returns the
  parsed value.  A text that is not valid JSON after trimming and fence stripping gives
  exactly the default fallback object.  \<^verbatim>\<open>safeJSON\<close> is total: it never throws.
\<close>

theorem safeJSON_fenced:
  "(JSON_parse j = Some v \<and> fence_opener pre \<and> fence_closer post \<and>
      (\<forall>c \<in> set w0. js_ws c) \<and> (\<forall>c \<in> set w1. js_ws c)
      \<longrightarrow> safeJSON (w0 @ pre @ j @ post @ w1) = v) \<and>
   (JSON_parse (strip_fences (trim t)) = None \<longrightarrow> safeJSON t = fallback_result)"
proof (intro conjI impI)
  assume a: "JSON_parse j = Some v \<and> fence_opener pre \<and> fence_closer post \<and>
      (\<forall>c \<in> set w0. js_ws c) \<and> (\<forall>c \<in> set w1. js_ws c)"
  then obtain ts where ts: "lexer j = Some ts" "run SValue [] ts = Some v"
    by (auto simp: JSON_parse_def split: option.splits)
  from run_nonempty [OF ts(2)] have ne: "ts \<noteq> []" .
  from trim_fenced [OF ts(1) ne, of pre post w0 w1] a obtain k where
    k: "trim (w0 @ pre @ j @ post @ w1) = pre @ k @ post" "lexer k = Some ts" by blast
  from strip_fences_fenced [OF k(2) ne, of pre post] a
  have "strip_fences (pre @ k @ post) = k" by simp
  with k ts(2) show "safeJSON (w0 @ pre @ j @ post @ w1) = v"
    by (simp add: safeJSON_strip JSON_parse_def)
next
  assume "JSON_parse (strip_fences (trim t)) = None"
  then show "safeJSON t = fallback_result" by (simp add: safeJSON_strip)
qed

theorem safeJSON_fenced_witness:
  "safeJSON ([] @ (fence @ asc ''JSON'') @ ([10] @ asc ''{\"tier\": \"Strong\", \"total_score\": 85}'' @ [10])
             @ fence @ [10]) =
     JObject [(asc ''tier'', JString (asc ''Strong'')), (asc ''total_score'', JNumber 85)] \<and>
   safeJSON (asc ''Sure, here is the assessment.'') = fallback_result"
proof -
  let ?j = "[10] @ asc ''{\"tier\": \"Strong\", \"total_score\": 85}'' @ [10]"
  let ?v = "JObject [(asc ''tier'', JString (asc ''Strong'')), (asc ''total_score'', JNumber 85)]"
  let ?t = "asc ''Sure, here is the assessment.''"
  have h1: "JSON_parse ?j = Some ?v \<and> fence_opener (fence @ asc ''JSON'') \<and> fence_closer fence \<and>
      (\<forall>c \<in> set []. js_ws c) \<and> (\<forall>c \<in> set [10]. js_ws c)"
    by (simp add: json_eval fence_opener_def fence_closer_def starts_with_ci_def fence_def
        ci_eq_def js_ws_def)
  have h2: "JSON_parse (strip_fences (trim ?t)) = None"
    by (simp add: json_eval strip_fences_def safeJSON_eval)
  from safeJSON_fenced [of ?j ?v "fence @ asc ''JSON''" fence "[]" "[10]" ?t] h1 h2
  show ?thesis by blast
qed

section \<open>Properties of the LLM client\<close>

lemma heuristic_uniform_4:
  "heuristicScore (uniform_payload 4) = verdict ''Strong'' ''Go'' 80 ''Heuristic fallback scoring.''"
  by (simp add: heuristicScore_spec score_values_def uniform_payload_def spec_total_def
      spec_average_def Math_round_def spec_tier_def spec_decision_def)

text \<open>
  C3.  When no provider secret is configured (so the provider is the default one) and no
  API key for it is configured, \<^verbatim>\<open>llmAssess\<close> sends no request and returns exactly the
  heuristic scorer's result for the input.
\<close>

theorem llmAssess_no_key_default:
  assumes "secret env ''LLM_PROVIDER'' = None" and "secret env ''ANTHROPIC_API_KEY'' = None"
  shows "llmAssess env input = (heuristicScore input, [])"
  using assms
  by (simp add: llmAssess_def llm_try_def resolved_provider_def or_default_def)

theorem llmAssess_no_key_default_witness:
  "llmAssess (keyless_platform None) (uniform_payload 4) =
     (verdict ''Strong'' ''Go'' 80 ''Heuristic fallback scoring.'', [])"
proof -
  have "secret (keyless_platform None) ''LLM_PROVIDER'' = None"
    and "secret (keyless_platform None) ''ANTHROPIC_API_KEY'' = None"
    by (simp_all add: keyless_platform_def)
  from llmAssess_no_key_default [OF this] heuristic_uniform_4 show ?thesis by simp
qed


lemma llmAssess_called:
  assumes "provider_key env = Some key" "key \<noteq> []"
  shows "llmAssess env input =
           (case call_provider env (provider_request env key input) (provider_text env) of
              Inl e \<Rightarrow> heuristicScore input | Inr v \<Rightarrow> v,
            [provider_request env key input])"
  using assms
  by (auto simp: llmAssess_def llm_try_def provider_key_def provider_request_def provider_text_def
      split: sum.splits)





lemma valid_fallback: "valid_result fallback_result"
  by (simp add: valid_result_def fallback_result_def verdict_def own_prop_def asc_def)

text \<open>
  C5, as the code has it.  After a provider call that yields a text (or none), the result
  is the value parsed from the fence-stripped text, returned as it is: nothing validates
  tier, decision or score, and no field is replaced.  Only when the text does not parse
  is the result replaced, as a whole, by the default object, which has tier Workable,
  decision Hold and score 60.
\<close>

theorem llmAssess_provider_result:
  "valid_result fallback_result \<and>
   (provider_key env = Some key \<and> key \<noteq> [] \<and>
      fetch env (provider_request env key input) = Response st body \<and> JSON_parse body = Some j \<and>
      provider_text env j = Inr t
      \<longrightarrow> llmAssess env input =
            ((case JSON_parse (strip_fences (trim (text_or_default t))) of
                Some v \<Rightarrow> v | None \<Rightarrow> fallback_result),
             [provider_request env key input]))"
proof (intro conjI impI)
  show "valid_result fallback_result" by (rule valid_fallback)
next
  assume "provider_key env = Some key \<and> key \<noteq> [] \<and>
      fetch env (provider_request env key input) = Response st body \<and> JSON_parse body = Some j \<and>
      provider_text env j = Inr t"
  then show "llmAssess env input =
            ((case JSON_parse (strip_fences (trim (text_or_default t))) of
                Some v \<Rightarrow> v | None \<Rightarrow> fallback_result),
             [provider_request env key input])"
    by (simp add: llmAssess_called call_provider_def safeJSON_strip)
qed

theorem llmAssess_provider_result_witness:
  "llmAssess (canned_platform 200
       (messages_body (asc ''{\"tier\":\"Strong\",\"go_hold_nogo\":\"Go\",\"total_score\":85}'')))
     (uniform_payload 1) =
   (JObject [(asc ''tier'', JString (asc ''Strong'')), (asc ''go_hold_nogo'', JString (asc ''Go'')),
             (asc ''total_score'', JNumber 85)],
    [anthropic_request (canned_platform 200 []) ''sk-test'' (uniform_payload 1)])"
proof -
  let ?p = "uniform_payload 1"
  let ?t = "asc ''{\"tier\":\"Strong\",\"go_hold_nogo\":\"Go\",\"total_score\":85}''"
  let ?b = "messages_body ?t"
  let ?j = "JObject [(asc ''content'',
                JArray [JObject [(asc ''type'', JString (asc ''text'')), (asc ''text'', JString ?t)]])]"
  let ?e = "canned_platform 200 ?b"
  have h: "provider_key ?e = Some ''sk-test'' \<and> ''sk-test'' \<noteq> [] \<and>
      fetch ?e (provider_request ?e ''sk-test'' ?p) = Response 200 ?b \<and>
      JSON_parse ?b = Some ?j \<and> provider_text ?e ?j = Inr (Some ?t)"
    by (simp add: platform_eval json_eval safeJSON_eval)
  have v: "JSON_parse (strip_fences (trim (text_or_default (Some ?t)))) =
      Some (JObject [(asc ''tier'', JString (asc ''Strong'')), (asc ''go_hold_nogo'', JString (asc ''Go'')),
             (asc ''total_score'', JNumber 85)])"
    by (simp add: text_or_default_def strip_fences_def json_eval safeJSON_eval)
  have r: "provider_request ?e ''sk-test'' ?p = anthropic_request (canned_platform 200 []) ''sk-test'' ?p"
    by (simp add: platform_eval)
  from llmAssess_provider_result [of ?e "''sk-test''" ?p 200 ?b ?j "Some ?t"] h v r
  show ?thesis by simp
qed

text \<open>
  C5 as stated fails: a provider text with a tier and a decision outside the enums and
  a score of 1000 is returned unchanged.
\<close>

theorem llmAssess_unvalidated:
  "fst (llmAssess (canned_platform 200 (messages_body
          (asc ''{\"tier\":\"Banana\",\"go_hold_nogo\":\"Maybe\",\"total_score\":1000}'')))
        (uniform_payload 4)) =
     JObject [(asc ''tier'', JString (asc ''Banana'')), (asc ''go_hold_nogo'', JString (asc ''Maybe'')),
              (asc ''total_score'', JNumber 1000)] \<and>
   \<not> valid_result (fst (llmAssess (canned_platform 200 (messages_body
          (asc ''{\"tier\":\"Banana\",\"go_hold_nogo\":\"Maybe\",\"total_score\":1000}'')))
        (uniform_payload 4)))"
proof -
  have a: "fst (llmAssess (canned_platform 200 (messages_body
          (asc ''{\"tier\":\"Banana\",\"go_hold_nogo\":\"Maybe\",\"total_score\":1000}'')))
        (uniform_payload 4)) =
     JObject [(asc ''tier'', JString (asc ''Banana'')), (asc ''go_hold_nogo'', JString (asc ''Maybe'')),
              (asc ''total_score'', JNumber 1000)]"
    by (simp add: llm_eval json_eval safeJSON_eval)
  have "\<not> valid_result (JObject [(asc ''tier'', JString (asc ''Banana'')),
              (asc ''go_hold_nogo'', JString (asc ''Maybe'')), (asc ''total_score'', JNumber 1000)])"
    by (simp add: valid_result_def own_prop_def asc_def)
  with a show ?thesis by simp
qed

section \<open>Properties of the store and of listDeals\<close>

lemma kv_put_keys: "fst ` set (kv_put st k v) = insert k (fst ` set st)"
proof (induction st)
  case Nil
  then show ?case by simp
next
  case (Cons e st)
  obtain k' v' where e: "e = (k', v')" by (cases e)
  show ?case
  proof (cases "k' = k")
    case True
    with e show ?thesis by auto
  next
    case False
    with e Cons.IH show ?thesis by auto
  qed
qed

lemma kv_put_distinct: "distinct (map fst st) \<Longrightarrow> distinct (map fst (kv_put st k v))"
proof (induction st)
  case Nil
  then show ?case by simp
next
  case (Cons e st)
  obtain k' v' where e: "e = (k', v')" by (cases e)
  show ?case
  proof (cases "k' = k")
    case True
    with e Cons.prems show ?thesis by simp
  next
    case False
    with e Cons kv_put_keys [of st k v] show ?thesis by auto
  qed
qed


lemma kv_get_put_other: "k' \<noteq> k \<Longrightarrow> kv_get (kv_put st k v) k' = kv_get st k'"
  by (induction st) (auto simp: kv_get_def)

lemma remaining_after:
  assumes d: "distinct ks" and ks: "ks = done @ rem" and ne: "done \<noteq> []"
  shows "drop 1 (dropWhile (\<lambda>k. k \<noteq> last done) ks) = rem"
proof -
  from ne have s: "done = butlast done @ [last done]" by simp
  with ks have k2: "ks = butlast done @ last done # rem"
    by (metis append.assoc append_Cons append_Nil)
  from d ks s have "distinct (butlast done @ [last done])"
    by (metis distinct_append)
  then have "\<forall>x \<in> set (butlast done). x \<noteq> last done" by auto
  then have "dropWhile (\<lambda>k. k \<noteq> last done) (butlast done @ last done # rem) = last done # rem"
    by (simp add: dropWhile_append3 dropWhile_eq_Nil_conv)
  with k2 show ?thesis by simp
qed

lemma collect_keys_all:
  assumes d: "distinct (map fst st)" and pfx: "pfx \<noteq> []"
  shows "filter (prefix pfx) (map fst st) = done @ rem \<Longrightarrow>
         (cursor = None \<and> done = []) \<or> (done \<noteq> [] \<and> cursor = Some (last done)) \<Longrightarrow>
         collect_keys st pfx cursor acc = Some (acc @ rem)"
proof (induction "length rem" arbitrary: rem "done" cursor acc rule: less_induct)
  case less
  let ?ks = "filter (prefix pfx) (map fst st)"
  have dk: "distinct ?ks" using d by simp
  have r: "kv_remaining st pfx cursor = rem"
  proof (cases cursor)
    case None
    with less.prems show ?thesis by (auto simp: kv_remaining_def)
  next
    case (Some c)
    with less.prems have ne: "done \<noteq> []" and c: "c = last done" by auto
    from remaining_after [OF dk less.prems(1) ne] Some c show ?thesis
      by (simp add: kv_remaining_def)
  qed
  show ?case
  proof (cases "100 < length rem")
    case True
    let ?page = "take 100 rem"
    have pne: "?page \<noteq> []" using True by (cases rem) auto
    have "last ?page \<in> set ?ks"
      using pne less.prems(1) by (metis UnCI last_in_set set_append in_set_takeD)
    then have "prefix pfx (last ?page)" by simp
    with pfx have lne: "last ?page \<noteq> []" by auto
    have split: "?ks = (done @ ?page) @ drop 100 rem"
      using less.prems(1) by simp
    have cur: "(Some (last ?page) = None \<and> done @ ?page = []) \<or>
               (done @ ?page \<noteq> [] \<and> Some (last ?page) = Some (last (done @ ?page)))"
      using pne by simp
    have "length (drop 100 rem) < length rem" using True by simp
    from less.hyps [OF this split cur, of "acc @ ?page"]
    have "collect_keys st pfx (Some (last ?page)) (acc @ ?page) = Some (acc @ rem)"
      by simp
    with True r lne show ?thesis
      by (subst collect_keys.simps) (simp add: kv_list_def falsy_def Let_def)
  next
    case False
    with r show ?thesis
      by (subst collect_keys.simps) (simp add: kv_list_def falsy_def Let_def)
  qed
qed

lemma map_filter_gets:
  assumes d: "distinct (map fst st)"
  shows "set xs \<subseteq> set st \<Longrightarrow> List.map_filter (kv_get st) (map fst xs) = map snd xs"
proof (induction xs)
  case Nil
  then show ?case by (simp add: List.map_filter_simps)
next
  case (Cons x xs)
  obtain k v where x: "x = (k, v)" by (cases x)
  with Cons.prems have "(k, v) \<in> set st" by simp
  with d have "map_of st k = Some v" by simp
  with Cons x show ?case by (simp add: List.map_filter_simps kv_get_def)
qed

lemma listDeals_result:
  assumes d: "distinct (map fst st)"
  shows "listDeals st uid =
           Some (sort_key (\<lambda>d. - updatedAt d)
                   (map snd (filter (\<lambda>e. prefix (deal_prefix uid) (fst e)) st)))"
proof -
  have "deal_prefix uid \<noteq> []" by (simp add: deal_prefix_def)
  from collect_keys_all [OF d this, of "[]" _ None "[]"]
  have c: "collect_keys st (deal_prefix uid) None [] =
             Some (filter (prefix (deal_prefix uid)) (map fst st))"
    by simp
  have "filter (prefix (deal_prefix uid)) (map fst st) =
          map fst (filter (\<lambda>e. prefix (deal_prefix uid) (fst e)) st)"
    by (simp add: filter_map comp_def)
  moreover have "List.map_filter (kv_get st) (map fst (filter (\<lambda>e. prefix (deal_prefix uid) (fst e)) st)) =
      map snd (filter (\<lambda>e. prefix (deal_prefix uid) (fst e)) st)"
    by (rule map_filter_gets [OF d]) auto
  ultimately show ?thesis using c by (simp add: listDeals_def)
qed

text \<open>
  What the listing gets right.  For a store the program has written, \<^verbatim>\<open>listDeals\<close>
  returns: the loop follows the cursor through every page, however many there are.  The
  result is sorted by \<open>updatedAt\<close>, latest first, and holds every Deal of the user exactly
  once.  Whatever else it holds is a Deal whose key starts with the user's prefix.
\<close>

lemma owned_among_prefixed:
  assumes "list_all (\<lambda>e. fst e = ''deal:'' @ userId (snd e) @ '':'' @ dealId (snd e)) st"
  shows "filter (\<lambda>d. userId d = uid) (map snd (filter (\<lambda>e. prefix (deal_prefix uid) (fst e)) st)) =
         filter (\<lambda>d. userId d = uid) (map snd st)"
  using assms
proof (induction st)
  case Nil
  then show ?case by simp
next
  case (Cons e st)
  then have k: "fst e = ''deal:'' @ userId (snd e) @ '':'' @ dealId (snd e)"
    and rest: "list_all (\<lambda>e. fst e = ''deal:'' @ userId (snd e) @ '':'' @ dealId (snd e)) st"
    by simp_all
  have "prefix (deal_prefix uid) (fst e)" if "userId (snd e) = uid"
    using that k by (simp add: deal_prefix_def)
  with Cons.IH [OF rest] show ?case by auto
qed

lemma listDeals_owner_complete:
  assumes "keyed_by_owner st"
  shows "\<exists>out. listDeals st uid = Some out \<and>
           mset (filter (\<lambda>d. userId d = uid) out) = mset (owned_deals st uid) \<and>
           sorted_wrt (\<lambda>a b. updatedAt b \<le> updatedAt a) out \<and>
           (\<forall>d \<in> set out. prefix (uid @ '':'') (userId d @ '':'' @ dealId d))"
proof -
  from assms have d: "distinct (map fst st)"
    and k: "list_all (\<lambda>e. fst e = ''deal:'' @ userId (snd e) @ '':'' @ dealId (snd e)) st"
    by (simp_all add: keyed_by_owner_def)
  let ?pre = "map snd (filter (\<lambda>e. prefix (deal_prefix uid) (fst e)) st)"
  let ?out = "sort_key (\<lambda>d. - updatedAt d) ?pre"
  have r: "listDeals st uid = Some ?out" by (rule listDeals_result [OF d])
  have "mset (filter (\<lambda>d. userId d = uid) ?out) = mset (filter (\<lambda>d. userId d = uid) ?pre)"
    by simp
  with owned_among_prefixed [OF k, of uid]
  have m: "mset (filter (\<lambda>d. userId d = uid) ?out) = mset (owned_deals st uid)"
    by (simp add: owned_deals_def)
  have "sorted (map (\<lambda>d. - updatedAt d) ?out)" by (rule sorted_sort_key)
  then have s: "sorted_wrt (\<lambda>a b. updatedAt b \<le> updatedAt a) ?out"
    by (simp add: sorted_map)
  have "prefix (uid @ '':'') (userId x @ '':'' @ dealId x)" if "x \<in> set ?out" for x
  proof -
    from that obtain e where e: "e \<in> set st" "prefix (deal_prefix uid) (fst e)" "x = snd e"
      by auto
    from k e(1) have "fst e = ''deal:'' @ userId (snd e) @ '':'' @ dealId (snd e)"
      by (simp add: list_all_iff)
    with e(2,3) show ?thesis by (simp add: deal_prefix_def)
  qed
  with r m s show ?thesis by blast
qed

lemma many_deals_keyed: "keyed_by_owner (many_deals n)"
proof -
  have "inj_on (\<lambda>i. deal_prefix ''u:ann@x.io'' @ replicate (Suc i) CHR ''k'') (set [0..<n])"
  proof (rule inj_onI)
    fix i j
    assume "deal_prefix ''u:ann@x.io'' @ replicate (Suc i) CHR ''k'' =
            deal_prefix ''u:ann@x.io'' @ replicate (Suc j) CHR ''k''"
    then have "length (replicate (Suc i) CHR ''k'') = length (replicate (Suc j) CHR ''k'')"
      by simp
    then show "i = j" by simp
  qed
  then have "distinct (map fst (many_deals n))"
    by (simp add: many_deals_def comp_def distinct_map)
  moreover have "list_all (\<lambda>e. fst e = ''deal:'' @ userId (snd e) @ '':'' @ dealId (snd e))
                   (many_deals n)"
    by (simp add: many_deals_def list_all_iff deal_prefix_def sample_deal_def)
  ultimately show ?thesis by (simp add: keyed_by_owner_def)
qed

lemma listDeals_three_pages:
  "\<exists>out. listDeals (many_deals 250) ''u:ann@x.io'' = Some out \<and> length out = 250 \<and>
         sorted_wrt (\<lambda>a b. updatedAt b \<le> updatedAt a) out"
proof -
  have own: "owned_deals (many_deals 250) ''u:ann@x.io'' = map snd (many_deals 250)"
    by (simp add: owned_deals_def many_deals_def sample_deal_def comp_def)
  have all: "filter (\<lambda>e. prefix (deal_prefix ''u:ann@x.io'') (fst e)) (many_deals 250) = many_deals 250"
    by (simp add: many_deals_def filter_map comp_def)
  from many_deals_keyed have d: "distinct (map fst (many_deals 250))"
    by (simp add: keyed_by_owner_def)
  from listDeals_result [OF d, of "''u:ann@x.io''"] all
  have "listDeals (many_deals 250) ''u:ann@x.io'' =
          Some (sort_key (\<lambda>d. - updatedAt d) (map snd (many_deals 250)))"
    by simp
  moreover have "length (sort_key (\<lambda>d. - updatedAt d) (map snd (many_deals 250))) = 250"
    by (simp add: many_deals_def)
  moreover have "sorted (map (\<lambda>d. - updatedAt d)
                   (sort_key (\<lambda>d. - updatedAt d) (map snd (many_deals 250))))"
    by (rule sorted_sort_key)
  then have "sorted_wrt (\<lambda>a b. updatedAt b \<le> updatedAt a)
               (sort_key (\<lambda>d. - updatedAt d) (map snd (many_deals 250)))"
    by (simp add: sorted_map)
  ultimately show ?thesis by blast
qed

section \<open>Properties of the request handler\<close>

lemmas handle_eval = handle_def route_home_def route_dev_login_def route_logout_def route_deals_def
  route_new_deal_def route_deal_def route_assess_def route_assessment_def requireSession_def
  getSession_def cookieGet_def cookie_match_at_def cookie_value_at_def kv_get_def
  form_string_def form_number_def deal_key_def assessment_key_def redirect_def TEXT_def HTML_def
  sample_runtime_def sample_state_def empty_state_def anonymous_request_def ann_request_def
  sample_deal_def or_default_def

lemma requireSession_no_cookie:
  assumes "req_cookie req = None"
  shows "requireSession rt s req = Inl (ThrownResponse (redirect ''/''))"
  using assms
  by (simp add: requireSession_def getSession_def cookieGet_def cookie_match_at_def
      cookie_value_at_def)

lemma requireSession_no_record:
  assumes "cookieGet rt req ''apx'' = Inr sid" "kv_get (SESS s) (''s:'' @ sid) = None"
  shows "requireSession rt s req = Inl (ThrownResponse (redirect ''/''))"
  using assms by (simp add: requireSession_def getSession_def)

lemma handle_protected_rejects:
  assumes "requireSession rt s req = Inl f"
    and "(req_method req = ''GET'' \<and> req_path req = ''/deals'') \<or>
         (req_method req = ''GET'' \<and> prefix ''/deal/'' (req_path req)) \<or>
         (req_method req = ''POST'' \<and> req_path req = ''/assess'') \<or>
         (req_method req = ''GET'' \<and> prefix ''/assessment/'' (req_path req))"
  shows "handle rt s req = Some (Rejected f, s)"
  using assms
  by (auto simp: handle_def route_deals_def route_deal_def route_assess_def route_assessment_def
      Let_def)

text \<open>
  C6.  What the code does for a request without a session cookie on each of the four
  protected routes: \<^verbatim>\<open>requireSession\<close> throws the redirect, nothing in \<^verbatim>\<open>handle\<close> catches
  it, and the promise given to \<^verbatim>\<open>event.respondWith\<close> is rejected.  The redirect response
  is the rejection's reason, not the response of the handler; what is served is the
  generic failure.
\<close>

theorem handle_unauthenticated_rejected:
  "handle sample_runtime sample_state (anonymous_request ''GET'' ''/deals'') =
     Some (Rejected (ThrownResponse (redirect ''/'')), sample_state) \<and>
   handle sample_runtime sample_state (anonymous_request ''GET'' ''/deal/d1'') =
     Some (Rejected (ThrownResponse (redirect ''/'')), sample_state) \<and>
   handle sample_runtime sample_state (anonymous_request ''POST'' ''/assess'') =
     Some (Rejected (ThrownResponse (redirect ''/'')), sample_state) \<and>
   handle sample_runtime sample_state (anonymous_request ''GET'' ''/assessment/d1/1700000000000'') =
     Some (Rejected (ThrownResponse (redirect ''/'')), sample_state) \<and>
   respondWith (Rejected (ThrownResponse (redirect ''/''))) = generic_failure \<and>
   status generic_failure \<noteq> 302"
proof -
  have r: "requireSession sample_runtime sample_state (anonymous_request m p) =
             Inl (ThrownResponse (redirect ''/''))" for m p
    by (rule requireSession_no_cookie) (simp add: anonymous_request_def)
  have "handle sample_runtime sample_state (anonymous_request ''GET'' ''/deals'') =
     Some (Rejected (ThrownResponse (redirect ''/'')), sample_state)"
    by (rule handle_protected_rejects [OF r]) (simp add: anonymous_request_def)
  moreover have "handle sample_runtime sample_state (anonymous_request ''GET'' ''/deal/d1'') =
     Some (Rejected (ThrownResponse (redirect ''/'')), sample_state)"
    by (rule handle_protected_rejects [OF r]) (simp add: anonymous_request_def)
  moreover have "handle sample_runtime sample_state (anonymous_request ''POST'' ''/assess'') =
     Some (Rejected (ThrownResponse (redirect ''/'')), sample_state)"
    by (rule handle_protected_rejects [OF r]) (simp add: anonymous_request_def)
  moreover have "handle sample_runtime sample_state
       (anonymous_request ''GET'' ''/assessment/d1/1700000000000'') =
     Some (Rejected (ThrownResponse (redirect ''/'')), sample_state)"
    by (rule handle_protected_rejects [OF r]) (simp add: anonymous_request_def)
  moreover have "status generic_failure \<noteq> 302" by (simp add: generic_failure_def)
  ultimately show ?thesis by simp
qed



















section \<open>Whose Deals the listing returns\<close>

text \<open>
  C8.  The listing does not return exactly the user's Deal records.  It reads every key
  that starts with \<^verbatim>\<open>deal:\<close>, the user's identifier and \<^verbatim>\<open>:\<close>, and the identifier is
  \<^verbatim>\<open>u:\<close> followed by whatever email \<^verbatim>\<open>POST /dev-login\<close> was given.  So the keys of a user
  whose identifier continues another's with a colon start with the other's prefix:
  signing in with the email \<^verbatim>\<open>a:b\<close> gives the identifier \<^verbatim>\<open>u:a:b\<close>; the Deal this user
  creates is stored under \<^verbatim>\<open>deal:u:a:b:\<close> and its identifier; and \<^verbatim>\<open>GET /deals\<close> for the
  user \<^verbatim>\<open>u:a\<close> returns it, ahead of the one Deal whose \<open>userId\<close> is \<^verbatim>\<open>u:a\<close>.  A third
  user's Deal is not returned.  (Paging, completeness and order are as claimed:
  \<open>listDeals_owner_complete\<close>, \<open>listDeals_three_pages\<close>.)
\<close>

theorem listDeals_lists_other_users_deal:
  "handle sample_runtime empty_state
     ((anonymous_request ''POST'' ''/dev-login'')\<lparr>req_form := login_form ''a:b''\<rparr>) =
     Some (Returned \<lparr>status = 302, location = Some ''/deals'',
                     set_cookie = Some (''apx'', ''0b9a2c4e-0000-4000-8000-000000000001'', 7),
                     content = NoBody\<rparr>,
           empty_state\<lparr>SESS := [(''s:0b9a2c4e-0000-4000-8000-000000000001'',
                                  \<lparr>sub = ''u:a:b'', email = ''a:b''\<rparr>)]\<rparr>) \<and>
   handle sample_runtime two_users_state (session_request ''sid-ab'' ''POST'' ''/deal'' deal_form) =
     Some (Returned \<lparr>status = 302,
                     location = Some ''/deal/0b9a2c4e-0000-4000-8000-000000000001'',
                     set_cookie = None, content = NoBody\<rparr>,
           two_users_state\<lparr>DEALS := DEALS two_users_state @
              [(''deal:u:a:b:0b9a2c4e-0000-4000-8000-000000000001'', other_users_deal)]\<rparr>) \<and>
   handle sample_runtime
     (two_users_state\<lparr>DEALS := DEALS two_users_state @
        [(''deal:u:a:b:0b9a2c4e-0000-4000-8000-000000000001'', other_users_deal)]\<rparr>)
     (session_request ''sid-a'' ''GET'' ''/deals'' (\<lambda>n. None)) =
     Some (Returned \<lparr>status = 200, location = None, set_cookie = None,
                     content = DealsPage [other_users_deal, sample_deal ''u:a'' ''d1'' 100]\<rparr>,
           two_users_state\<lparr>DEALS := DEALS two_users_state @
              [(''deal:u:a:b:0b9a2c4e-0000-4000-8000-000000000001'', other_users_deal)]\<rparr>) \<and>
   userId other_users_deal = ''u:a:b'' \<and>
   owned_deals (DEALS two_users_state @
        [(''deal:u:a:b:0b9a2c4e-0000-4000-8000-000000000001'', other_users_deal)]) ''u:a'' =
     [sample_deal ''u:a'' ''d1'' 100]"
proof -
  let ?id = "''0b9a2c4e-0000-4000-8000-000000000001''"
  let ?st = "DEALS two_users_state @ [(''deal:u:a:b:0b9a2c4e-0000-4000-8000-000000000001'', other_users_deal)]"
  have login: "handle sample_runtime empty_state
     ((anonymous_request ''POST'' ''/dev-login'')\<lparr>req_form := login_form ''a:b''\<rparr>) =
     Some (Returned \<lparr>status = 302, location = Some ''/deals'',
                     set_cookie = Some (''apx'', ?id, 7), content = NoBody\<rparr>,
           empty_state\<lparr>SESS := [(''s:0b9a2c4e-0000-4000-8000-000000000001'',
                                  \<lparr>sub = ''u:a:b'', email = ''a:b''\<rparr>)]\<rparr>)"
    by (simp add: handle_eval login_form_def str_trim_def js_ws_def cookieSet_def Let_def)
  have create: "handle sample_runtime two_users_state
       (session_request ''sid-ab'' ''POST'' ''/deal'' deal_form) =
     Some (Returned \<lparr>status = 302, location = Some ''/deal/0b9a2c4e-0000-4000-8000-000000000001'',
                     set_cookie = None, content = NoBody\<rparr>,
           two_users_state\<lparr>DEALS := ?st\<rparr>)"
    by (simp add: handle_eval session_request_def two_users_state_def deal_form_def
        other_users_deal_def str_trim_def js_ws_def Let_def)
  have d: "distinct (map fst ?st)"
    by (simp add: two_users_state_def)
  have l: "listDeals ?st ''u:a'' = Some [other_users_deal, sample_deal ''u:a'' ''d1'' 100]"
    unfolding listDeals_result [OF d]
    by (simp add: two_users_state_def deal_prefix_def other_users_deal_def sample_deal_def)
  have list: "handle sample_runtime (two_users_state\<lparr>DEALS := ?st\<rparr>)
     (session_request ''sid-a'' ''GET'' ''/deals'' (\<lambda>n. None)) =
     Some (Returned \<lparr>status = 200, location = None, set_cookie = None,
                     content = DealsPage [other_users_deal, sample_deal ''u:a'' ''d1'' 100]\<rparr>,
           two_users_state\<lparr>DEALS := ?st\<rparr>)"
  proof -
    have "requireSession sample_runtime (two_users_state\<lparr>DEALS := ?st\<rparr>)
            (session_request ''sid-a'' ''GET'' ''/deals'' (\<lambda>n. None)) =
          Inr (''sid-a'', \<lparr>sub = ''u:a'', email = ''a''\<rparr>)"
      by (simp add: requireSession_def getSession_def cookieGet_def cookie_match_at_def
          cookie_value_at_def kv_get_def session_request_def two_users_state_def sample_runtime_def)
    with l show ?thesis
      by (simp add: handle_def route_deals_def session_request_def HTML_def)
  qed
  have own: "owned_deals ?st ''u:a'' = [sample_deal ''u:a'' ''d1'' 100]"
    by (simp add: owned_deals_def two_users_state_def sample_deal_def other_users_deal_def)
  have "userId other_users_deal = ''u:a:b''" by (simp add: other_users_deal_def)
  with login create list own show ?thesis by simp
qed

end
